theory Spec2Isabelle
  imports Complex_Main
begin

section \<open>Vector utilities\<close>

text \<open>
  The game of \<^verbatim>\<open>p11.cpp\<close> computes on \<^verbatim>\<open>float\<close>. The embedding reads every
  \<^verbatim>\<open>float\<close> as a real number: rounding is not modelled. Every concrete input used
  below is a small dyadic or decimal value on which the sign of the result does not
  depend on rounding.
\<close>

record Vector2f =
  vec_x :: real
  vec_y :: real

definition getLength :: "Vector2f \<Rightarrow> real" where
  "getLength mVec = sqrt ((vec_x mVec)\<^sup>2 + (vec_y mVec)\<^sup>2)"

text \<open>
  \<^verbatim>\<open>mVec / length\<close> divides both components. For the zero vector the C++ yields NaN
  components while HOL's division yields 0; the only caller passes a vector whose
  second component is \<open>-2\<close> (lemma \<open>collisionVec_length_pos\<close>).
\<close>

definition getNormalized :: "Vector2f \<Rightarrow> Vector2f" where
  "getNormalized mVec =
     \<lparr>vec_x = vec_x mVec / getLength mVec, vec_y = vec_y mVec / getLength mVec\<rparr>"

definition getDotProduct :: "Vector2f \<Rightarrow> Vector2f \<Rightarrow> real" where
  "getDotProduct mVec1 mVec2 = vec_x mVec1 * vec_x mVec2 + vec_y mVec1 * vec_y mVec2"

definition getReflected :: "Vector2f \<Rightarrow> Vector2f \<Rightarrow> Vector2f" where
  "getReflected mVec mNormal =
     (let s = 2 * getDotProduct mVec mNormal
      in \<lparr>vec_x = vec_x mVec - vec_x mNormal * s, vec_y = vec_y mVec - vec_y mNormal * s\<rparr>)"

section \<open>Shapes and the intersection test\<close>

text \<open>
  \<^verbatim>\<open>struct Rectangle\<close> and \<^verbatim>\<open>struct Circle\<close> wrap an SFML shape; the model keeps
  the position and the extent the accessors read. \<^verbatim>\<open>isIntersecting\<close> is a template
  over any two types with the four edge accessors: \<open>Shape\<close> is the sum of the two.
  The accessor \<^verbatim>\<open>top()\<close> is \<open>top_edge\<close> here, \<open>top\<close> being the greatest element
  of an order in HOL.
\<close>

record Rectangle =
  rect_x :: real
  rect_y :: real
  rect_width :: real
  rect_height :: real

record Circle =
  circ_x :: real
  circ_y :: real
  circ_radius :: real

datatype Shape = Rect Rectangle | Circ Circle

fun left :: "Shape \<Rightarrow> real" where
  "left (Rect r) = rect_x r - rect_width r / 2"
| "left (Circ c) = circ_x c - circ_radius c"

fun right :: "Shape \<Rightarrow> real" where
  "right (Rect r) = rect_x r + rect_width r / 2"
| "right (Circ c) = circ_x c + circ_radius c"

fun top_edge :: "Shape \<Rightarrow> real" where
  "top_edge (Rect r) = rect_y r - rect_height r / 2"
| "top_edge (Circ c) = circ_y c - circ_radius c"

fun bottom :: "Shape \<Rightarrow> real" where
  "bottom (Rect r) = rect_y r + rect_height r / 2"
| "bottom (Circ c) = circ_y c + circ_radius c"

definition isIntersecting :: "Shape \<Rightarrow> Shape \<Rightarrow> bool" where
  "isIntersecting mA mB \<longleftrightarrow>
     right mA \<ge> left mB \<and> left mA \<le> right mB \<and> bottom mA \<ge> top_edge mB \<and> top_edge mA \<le> bottom mB"

definition wndWidth :: real where "wndWidth = 800"
definition wndHeight :: real where "wndHeight = 600"

section \<open>Entities\<close>

text \<open>
  The keys the game polls with \<^verbatim>\<open>sf::Keyboard::isKeyPressed\<close>. The game loop and
  \<^verbatim>\<open>Paddle::processPlayerInput\<close> poll once per frame each: a frame is given one
  snapshot of the five keys.
\<close>

record Keys =
  key_Escape :: bool
  key_P :: bool
  key_R :: bool
  key_Left :: bool
  key_Right :: bool

subsection \<open>Ball\<close>

record Ball =
  ball_destroyed :: bool
  ball_shape :: Circle
  ball_velocity :: Vector2f

definition ball_defRadius :: real where "ball_defRadius = 10"
definition ball_defVelocity :: real where "ball_defVelocity = 8"

definition new_Ball :: "real \<Rightarrow> real \<Rightarrow> Ball" where
  "new_Ball mX mY =
     \<lparr>ball_destroyed = False,
      ball_shape = \<lparr>circ_x = mX, circ_y = mY, circ_radius = ball_defRadius\<rparr>,
      ball_velocity = \<lparr>vec_x = - ball_defVelocity, vec_y = - ball_defVelocity\<rparr>\<rparr>"

definition ball_move :: "Ball \<Rightarrow> Ball" where
  "ball_move b =
     b\<lparr>ball_shape := (ball_shape b)
         \<lparr>circ_x := circ_x (ball_shape b) + vec_x (ball_velocity b),
          circ_y := circ_y (ball_shape b) + vec_y (ball_velocity b)\<rparr>\<rparr>"

definition solveBoundCollisions :: "Ball \<Rightarrow> Ball" where
  "solveBoundCollisions b =
     (let s = Circ (ball_shape b);
          b1 = (if left s < 0 \<or> right s > wndWidth
                then b\<lparr>ball_velocity := (ball_velocity b)\<lparr>vec_x := vec_x (ball_velocity b) * (- 1)\<rparr>\<rparr>
                else b)
      in if top_edge s < 0
         then b1\<lparr>ball_velocity := (ball_velocity b1)\<lparr>vec_y := vec_y (ball_velocity b1) * (- 1)\<rparr>\<rparr>
         else if bottom s > wndHeight then b1\<lparr>ball_destroyed := True\<rparr>
         else b1)"

definition ball_update :: "Ball \<Rightarrow> Ball" where
  "ball_update b = solveBoundCollisions (ball_move b)"

subsection \<open>Paddle\<close>

record Paddle =
  paddle_destroyed :: bool
  paddle_shape :: Rectangle
  paddle_velocity :: Vector2f

definition paddle_defWidth :: real where "paddle_defWidth = 75"
definition paddle_defHeight :: real where "paddle_defHeight = 20"
definition paddle_defVelocity :: real where "paddle_defVelocity = 8"

text \<open>
  \<^verbatim>\<open>sf::Vector2f velocity;\<close> is value-initialised to \<open>(0, 0)\<close> by SFML's default
  constructor.
\<close>

definition new_Paddle :: "real \<Rightarrow> real \<Rightarrow> Paddle" where
  "new_Paddle mX mY =
     \<lparr>paddle_destroyed = False,
      paddle_shape = \<lparr>rect_x = mX, rect_y = mY,
                      rect_width = paddle_defWidth, rect_height = paddle_defHeight\<rparr>,
      paddle_velocity = \<lparr>vec_x = 0, vec_y = 0\<rparr>\<rparr>"

definition processPlayerInput :: "Keys \<Rightarrow> Paddle \<Rightarrow> Paddle" where
  "processPlayerInput k p =
     (let s = Rect (paddle_shape p)
      in if key_Left k \<and> left s > 0
         then p\<lparr>paddle_velocity := (paddle_velocity p)\<lparr>vec_x := - paddle_defVelocity\<rparr>\<rparr>
         else if key_Right k \<and> right s < wndWidth
         then p\<lparr>paddle_velocity := (paddle_velocity p)\<lparr>vec_x := paddle_defVelocity\<rparr>\<rparr>
         else p\<lparr>paddle_velocity := (paddle_velocity p)\<lparr>vec_x := 0\<rparr>\<rparr>)"

definition paddle_move :: "Paddle \<Rightarrow> Paddle" where
  "paddle_move p =
     p\<lparr>paddle_shape := (paddle_shape p)
         \<lparr>rect_x := rect_x (paddle_shape p) + vec_x (paddle_velocity p),
          rect_y := rect_y (paddle_shape p) + vec_y (paddle_velocity p)\<rparr>\<rparr>"

definition paddle_update :: "Keys \<Rightarrow> Paddle \<Rightarrow> Paddle" where
  "paddle_update k p = paddle_move (processPlayerInput k p)"

subsection \<open>Brick\<close>

text \<open>
  The fill colour is the one field of the shape that \<^verbatim>\<open>Brick::update\<close> writes; the
  constructor leaves it unset. (The ball and the paddle are given their colour once, in
  the constructor; it plays no part and is left out.) \<^verbatim>\<open>requiredHits\<close> is a C++
  \<^verbatim>\<open>int\<close>, modelled by \<open>int\<close>: \<^verbatim>\<open>restart\<close> sets it to 1, 2 or 3, and a brick
  that reaches 0 is removed at the end of the frame (lemma \<open>main_ok\<close>), far from the
  bounds of the machine type.
\<close>

datatype Color = defColorHits1 | defColorHits2 | defColorHits3 | unset_Color

record Brick =
  brick_destroyed :: bool
  brick_shape :: Rectangle
  brick_fill :: Color
  requiredHits :: int

definition brick_defWidth :: real where "brick_defWidth = 60"
definition brick_defHeight :: real where "brick_defHeight = 20"

definition new_Brick :: "real \<Rightarrow> real \<Rightarrow> Brick" where
  "new_Brick mX mY =
     \<lparr>brick_destroyed = False,
      brick_shape = \<lparr>rect_x = mX, rect_y = mY,
                     rect_width = brick_defWidth, rect_height = brick_defHeight\<rparr>,
      brick_fill = unset_Color,
      requiredHits = 1\<rparr>"

definition brick_update :: "Brick \<Rightarrow> Brick" where
  "brick_update k =
     (if requiredHits k = 1 then k\<lparr>brick_fill := defColorHits1\<rparr>
      else if requiredHits k = 2 then k\<lparr>brick_fill := defColorHits2\<rparr>
      else k\<lparr>brick_fill := defColorHits3\<rparr>)"

section \<open>Collision response\<close>

definition posFactor :: "Paddle \<Rightarrow> Ball \<Rightarrow> real" where
  "posFactor mPaddle mBall =
     (circ_x (ball_shape mBall) - rect_x (paddle_shape mPaddle)) / rect_width (paddle_shape mPaddle)"

definition velFactor :: "Paddle \<Rightarrow> real" where
  "velFactor mPaddle = vec_x (paddle_velocity mPaddle) * 0.05"

definition collisionVec :: "Paddle \<Rightarrow> Ball \<Rightarrow> Vector2f" where
  "collisionVec mPaddle mBall = \<lparr>vec_x = posFactor mPaddle mBall + velFactor mPaddle, vec_y = - 2\<rparr>"

definition solvePaddleBallCollision :: "Paddle \<Rightarrow> Ball \<Rightarrow> Ball" where
  "solvePaddleBallCollision mPaddle mBall =
     (if \<not> isIntersecting (Rect (paddle_shape mPaddle)) (Circ (ball_shape mBall)) then mBall
      else
        let newY = top_edge (Rect (paddle_shape mPaddle)) - circ_radius (ball_shape mBall) * 2;
            b1 = mBall\<lparr>ball_shape := (ball_shape mBall)\<lparr>circ_y := newY\<rparr>\<rparr>
        in b1\<lparr>ball_velocity :=
               getReflected (ball_velocity b1) (getNormalized (collisionVec mPaddle b1))\<rparr>)"

text \<open>The four directional overlaps, the locals of \<^verbatim>\<open>solveBrickBallCollision\<close>.\<close>

definition overlapLeft :: "Brick \<Rightarrow> Ball \<Rightarrow> real" where
  "overlapLeft mBrick mBall = right (Circ (ball_shape mBall)) - left (Rect (brick_shape mBrick))"

definition overlapRight :: "Brick \<Rightarrow> Ball \<Rightarrow> real" where
  "overlapRight mBrick mBall = right (Rect (brick_shape mBrick)) - left (Circ (ball_shape mBall))"

definition overlapTop :: "Brick \<Rightarrow> Ball \<Rightarrow> real" where
  "overlapTop mBrick mBall = bottom (Circ (ball_shape mBall)) - top_edge (Rect (brick_shape mBrick))"

definition overlapBottom :: "Brick \<Rightarrow> Ball \<Rightarrow> real" where
  "overlapBottom mBrick mBall = bottom (Rect (brick_shape mBrick)) - top_edge (Circ (ball_shape mBall))"

definition solveBrickBallCollision :: "Brick \<Rightarrow> Ball \<Rightarrow> Brick \<times> Ball" where
  "solveBrickBallCollision mBrick mBall =
     (if \<not> isIntersecting (Rect (brick_shape mBrick)) (Circ (ball_shape mBall)) then (mBrick, mBall)
      else
        let k1 = mBrick\<lparr>requiredHits := requiredHits mBrick - 1\<rparr>;
            k2 = (if requiredHits k1 \<le> 0 then k1\<lparr>brick_destroyed := True\<rparr> else k1);
            bFromLeft = (abs (overlapLeft k2 mBall) < abs (overlapRight k2 mBall));
            bFromTop = (abs (overlapTop k2 mBall) < abs (overlapBottom k2 mBall));
            minOverlapX = (if bFromLeft then overlapLeft k2 mBall else overlapRight k2 mBall);
            minOverlapY = (if bFromTop then overlapTop k2 mBall else overlapBottom k2 mBall)
        in if abs minOverlapX < abs minOverlapY
           then (k2, mBall\<lparr>ball_velocity := (ball_velocity mBall)
                   \<lparr>vec_x := abs (vec_x (ball_velocity mBall)) * (if bFromLeft then - 1 else 1)\<rparr>\<rparr>)
           else (k2, mBall\<lparr>ball_velocity := (ball_velocity mBall)
                   \<lparr>vec_y := abs (vec_y (ball_velocity mBall)) * (if bFromTop then - 1 else 1)\<rparr>\<rparr>))"

text \<open>
  What the call does to an intersecting brick, on its own: the decrement and the test
  (lemma \<open>solveBrickBall_hit\<close>).
\<close>

definition brick_hit :: "Brick \<Rightarrow> Brick" where
  "brick_hit k =
     (if requiredHits k - 1 \<le> 0
      then k\<lparr>requiredHits := requiredHits k - 1, brick_destroyed := True\<rparr>
      else k\<lparr>requiredHits := requiredHits k - 1\<rparr>)"

section \<open>Entity and Manager\<close>

text \<open>
  \<^verbatim>\<open>Entity\<close> is the polymorphic base class; the three classes deriving from it are
  the constructors. \<open>TypeId\<close> stands for \<^verbatim>\<open>typeid(T).hash_code()\<close>, the key of
  \<^verbatim>\<open>groupedEntities\<close>: the three classes are taken to have three different hash codes.
\<close>

datatype Entity = EBall Ball | EPaddle Paddle | EBrick Brick

datatype TypeId = TBall | TPaddle | TBrick

fun typeid :: "Entity \<Rightarrow> TypeId" where
  "typeid (EBall b) = TBall"
| "typeid (EPaddle p) = TPaddle"
| "typeid (EBrick k) = TBrick"

fun destroyed :: "Entity \<Rightarrow> bool" where
  "destroyed (EBall b) = ball_destroyed b"
| "destroyed (EPaddle p) = paddle_destroyed p"
| "destroyed (EBrick k) = brick_destroyed k"

fun set_destroyed :: "Entity \<Rightarrow> Entity" where
  "set_destroyed (EBall b) = EBall (b\<lparr>ball_destroyed := True\<rparr>)"
| "set_destroyed (EPaddle p) = EPaddle (p\<lparr>paddle_destroyed := True\<rparr>)"
| "set_destroyed (EBrick k) = EBrick (k\<lparr>brick_destroyed := True\<rparr>)"

fun update :: "Keys \<Rightarrow> Entity \<Rightarrow> Entity" where
  "update keys (EBall b) = EBall (ball_update b)"
| "update keys (EPaddle p) = EPaddle (paddle_update keys p)"
| "update keys (EBrick k) = EBrick (brick_update k)"

text \<open>
  The heap, as far as the manager sees it. \<^verbatim>\<open>entities\<close> owns the objects: each
  \<^verbatim>\<open>unique_ptr\<close> is the pair of the object's address and the object, and an object
  lives exactly as long as its pair is in the vector. \<^verbatim>\<open>groupedEntities\<close> holds raw
  pointers, that is addresses. It is read through \<^verbatim>\<open>operator[]\<close> only, which creates
  an empty vector for a missing key, so the map is a total function with value \<open>[]\<close>
  where the C++ map has no key.
\<close>

type_synonym addr = nat

record Manager =
  entities :: "(addr \<times> Entity) list"
  groupedEntities :: "TypeId \<Rightarrow> addr list"

definition empty_Manager :: Manager where
  "empty_Manager = \<lparr>entities = [], groupedEntities = (\<lambda>T. [])\<rparr>"

text \<open>Reading and writing through a pointer; reading a dangling one has no value.\<close>

definition deref :: "Manager \<Rightarrow> addr \<Rightarrow> Entity option" where
  "deref m ptr = map_of (entities m) ptr"

definition modify :: "addr \<Rightarrow> (Entity \<Rightarrow> Entity) \<Rightarrow> Manager \<Rightarrow> Manager" where
  "modify ptr f m =
     m\<lparr>entities := map (\<lambda>(q, e). if q = ptr then (q, f e) else (q, e)) (entities m)\<rparr>"

text \<open>
  \<^verbatim>\<open>std::make_unique\<close> returns an address no live object has; the model takes the
  least address above all live ones.
\<close>

definition fresh_addr :: "(addr \<times> Entity) list \<Rightarrow> addr" where
  "fresh_addr es = foldr (\<lambda>(q, e) n. max (Suc q) n) es 0"

definition create :: "Entity \<Rightarrow> Manager \<Rightarrow> addr \<times> Manager" where
  "create e m =
     (let ptr = fresh_addr (entities m)
      in (ptr, m\<lparr>groupedEntities := (groupedEntities m)(typeid e := groupedEntities m (typeid e) @ [ptr]),
                 entities := entities m @ [(ptr, e)]\<rparr>))"

definition getAll :: "Manager \<Rightarrow> TypeId \<Rightarrow> addr list" where
  "getAll m T = groupedEntities m T"

text \<open>
  The erase-remove idiom on a vector of raw pointers with the predicate
  \<^verbatim>\<open>mPtr->destroyed\<close>: every pointer is dereferenced.
\<close>

fun remove_if_destroyed :: "Manager \<Rightarrow> addr list \<Rightarrow> addr list option" where
  "remove_if_destroyed m [] = Some []"
| "remove_if_destroyed m (ptr # ptrs) =
     (case deref m ptr of
        None \<Rightarrow> None
      | Some e \<Rightarrow>
          (case remove_if_destroyed m ptrs of
             None \<Rightarrow> None
           | Some r \<Rightarrow> Some (if destroyed e then r else ptr # r)))"

definition refresh :: "Manager \<Rightarrow> Manager option" where
  "refresh m =
     (case (remove_if_destroyed m (groupedEntities m TBall),
            remove_if_destroyed m (groupedEntities m TPaddle),
            remove_if_destroyed m (groupedEntities m TBrick)) of
        (Some balls, Some paddles, Some bricks) \<Rightarrow>
          Some \<lparr>entities = filter (\<lambda>(q, e). \<not> destroyed e) (entities m),
                groupedEntities = (\<lambda>T. case T of TBall \<Rightarrow> balls | TPaddle \<Rightarrow> paddles | TBrick \<Rightarrow> bricks)\<rparr>
      | _ \<Rightarrow> None)"

definition clear :: "Manager \<Rightarrow> Manager" where
  "clear m = m\<lparr>groupedEntities := (\<lambda>T. []), entities := []\<rparr>"

text \<open>
  The calls a frame makes on entities, with the arguments as they are when the call is
  made: the trace of a frame.
\<close>

datatype Call = CallUpdate Entity | CallBrickBall Brick Ball | CallPaddleBall Paddle Ball

type_synonym sim = "Manager \<times> Call list"

text \<open>
  \<^verbatim>\<open>forEach<T>\<close> walks the bucket of \<open>T\<close> as it is when the loop starts and
  hands each pointer to the callback; no callback of the game changes a bucket. The
  \<^verbatim>\<open>reinterpret_cast\<close> and the dereference are modelled where the callback reads
  the object (\<open>brick_ball\<close>, \<open>paddle_ball\<close> below): a dangling pointer, or one to an
  object of another class, has no defined result, the value \<open>None\<close>.
\<close>

fun forEach_ptrs :: "(addr \<Rightarrow> sim \<Rightarrow> sim option) \<Rightarrow> addr list \<Rightarrow> sim \<Rightarrow> sim option" where
  "forEach_ptrs mFunc [] s = Some s"
| "forEach_ptrs mFunc (ptr # ptrs) s =
     (case mFunc ptr s of None \<Rightarrow> None | Some s' \<Rightarrow> forEach_ptrs mFunc ptrs s')"

definition forEach :: "TypeId \<Rightarrow> (addr \<Rightarrow> sim \<Rightarrow> sim option) \<Rightarrow> sim \<Rightarrow> sim option" where
  "forEach T mFunc s = forEach_ptrs mFunc (getAll (fst s) T) s"

text \<open>
  \<^verbatim>\<open>Manager::update\<close>, under the name \<open>update_all\<close>: it calls the virtual
  \<^verbatim>\<open>update\<close> of every owned entity, in the order of the vector.
\<close>

definition update_all :: "Keys \<Rightarrow> sim \<Rightarrow> sim" where
  "update_all keys s =
     ((fst s)\<lparr>entities := map (\<lambda>(q, e). (q, update keys e)) (entities (fst s))\<rparr>,
      snd s @ map (\<lambda>(q, e). CallUpdate e) (entities (fst s)))"

section \<open>Game\<close>

text \<open>
  The window, the font and the two texts of \<^verbatim>\<open>class Game\<close> belong to the renderer:
  clearing, drawing (also \<^verbatim>\<open>Manager::draw\<close>) and displaying read the entities and
  change nothing the game computes with, and are left out. \<^verbatim>\<open>remainingLives\<close> is
  a C++ \<^verbatim>\<open>int\<close>, modelled by \<open>int\<close>; it is set to 3 and counted down.
\<close>

datatype State = Paused | GameOver | InProgress | Victory

record Game =
  manager :: Manager
  state :: State
  pausePressedLastFrame :: bool
  remainingLives :: int

definition brkCountX :: int where "brkCountX = 11"
definition brkCountY :: int where "brkCountY = 4"
definition brkStartCol :: int where "brkStartCol = 1"
definition brkStartRow :: int where "brkStartRow = 2"
definition brkSpacing :: real where "brkSpacing = 3"
definition brkOffsetX :: real where "brkOffsetX = 22"

definition new_Game :: Game where
  "new_Game = \<lparr>manager = empty_Manager, state = GameOver,
               pausePressedLastFrame = False, remainingLives = 0\<rparr>"

text \<open>The body of the two nested loops of \<^verbatim>\<open>restart\<close>, and the loops.\<close>

definition create_brick :: "int \<Rightarrow> int \<Rightarrow> Manager \<Rightarrow> Manager" where
  "create_brick iX iY m =
     (let x = real_of_int (iX + brkStartCol) * (brick_defWidth + brkSpacing);
          y = real_of_int (iY + brkStartRow) * (brick_defHeight + brkSpacing);
          (brick, m1) = create (EBrick (new_Brick (brkOffsetX + x) y)) m
      in modify brick
           (\<lambda>e. case e of EBrick k \<Rightarrow> EBrick (k\<lparr>requiredHits := 1 + ((iX * iY) mod 3)\<rparr>) | _ \<Rightarrow> e) m1)"

fun create_column :: "int \<Rightarrow> int list \<Rightarrow> Manager \<Rightarrow> Manager" where
  "create_column iX [] m = m"
| "create_column iX (iY # iYs) m = create_column iX iYs (create_brick iX iY m)"

fun create_grid :: "int list \<Rightarrow> Manager \<Rightarrow> Manager" where
  "create_grid [] m = m"
| "create_grid (iX # iXs) m = create_grid iXs (create_column iX [0..brkCountY - 1] m)"

definition restart :: "Game \<Rightarrow> Game" where
  "restart g =
     (let m1 = create_grid [0..brkCountX - 1] (clear (manager g));
          m2 = snd (create (EBall (new_Ball (wndWidth / 2) (wndHeight / 2))) m1);
          m3 = snd (create (EPaddle (new_Paddle (wndWidth / 2) (wndHeight - 50))) m2)
      in g\<lparr>remainingLives := 3, state := Paused, manager := m3\<rparr>)"

text \<open>The callbacks of the collision loops of \<^verbatim>\<open>run\<close>.\<close>

definition brick_ball :: "addr \<Rightarrow> addr \<Rightarrow> sim \<Rightarrow> sim option" where
  "brick_ball mBall mBrick s =
     (case (deref (fst s) mBall, deref (fst s) mBrick) of
        (Some (EBall b), Some (EBrick k)) \<Rightarrow>
          (let (k', b') = solveBrickBallCollision k b
           in Some (modify mBrick (\<lambda>e. EBrick k') (modify mBall (\<lambda>e. EBall b') (fst s)),
                    snd s @ [CallBrickBall k b]))
      | _ \<Rightarrow> None)"

definition paddle_ball :: "addr \<Rightarrow> addr \<Rightarrow> sim \<Rightarrow> sim option" where
  "paddle_ball mBall mPaddle s =
     (case (deref (fst s) mBall, deref (fst s) mPaddle) of
        (Some (EBall b), Some (EPaddle p)) \<Rightarrow>
          Some (modify mBall (\<lambda>e. EBall (solvePaddleBallCollision p b)) (fst s),
                snd s @ [CallPaddleBall p b])
      | _ \<Rightarrow> None)"

definition solve_collisions :: "sim \<Rightarrow> sim option" where
  "solve_collisions s =
     forEach TBall
       (\<lambda>mBall s1.
          case forEach TBrick (brick_ball mBall) s1 of
            None \<Rightarrow> None
          | Some s2 \<Rightarrow> forEach TPaddle (paddle_ball mBall) s2) s"

text \<open>One pass of the loop body after the Escape test, in its three parts.\<close>

definition process_input :: "Keys \<Rightarrow> Game \<Rightarrow> Game" where
  "process_input keys g =
     (let g1 = (if key_P keys
                then (if \<not> pausePressedLastFrame g
                      then (if state g = Paused then g\<lparr>state := InProgress\<rparr>
                            else if state g = InProgress then g\<lparr>state := Paused\<rparr>
                            else g)
                      else g)\<lparr>pausePressedLastFrame := True\<rparr>
                else g\<lparr>pausePressedLastFrame := False\<rparr>)
      in if key_R keys then restart g1 else g1)"

definition simulate :: "Keys \<Rightarrow> Game \<Rightarrow> (Game \<times> Call list) option" where
  "simulate keys g =
     (let g1 = (if getAll (manager g) TBall = []
                then g\<lparr>manager := snd (create (EBall (new_Ball (wndWidth / 2) (wndHeight / 2))) (manager g)),
                       remainingLives := remainingLives g - 1\<rparr>
                else g);
          g2 = (if getAll (manager g1) TBrick = [] then g1\<lparr>state := Victory\<rparr> else g1);
          g3 = (if remainingLives g2 \<le> 0 then g2\<lparr>state := GameOver\<rparr> else g2)
      in case solve_collisions (update_all keys (manager g3, [])) of
           None \<Rightarrow> None
         | Some (m4, calls) \<Rightarrow>
             (case refresh m4 of
                None \<Rightarrow> None
              | Some m5 \<Rightarrow> Some (g3\<lparr>manager := m5\<rparr>, calls)))"

definition frame :: "Keys \<Rightarrow> Game \<Rightarrow> (Game \<times> Call list) option" where
  "frame keys g =
     (let g1 = process_input keys g
      in if state g1 \<noteq> InProgress then Some (g1, []) else simulate keys g1)"

text \<open>
  \<^verbatim>\<open>run\<close> on the key snapshots of the coming frames: it leaves the loop at the first
  frame that sees Escape. The result is the game and the calls made so far; \<open>None\<close> is a
  dangling or wrongly typed pointer.
\<close>

fun run :: "Keys list \<Rightarrow> Game \<Rightarrow> (Game \<times> Call list) option" where
  "run [] g = Some (g, [])"
| "run (keys # rest) g =
     (if key_Escape keys then Some (g, [])
      else case frame keys g of
             None \<Rightarrow> None
           | Some (g1, calls) \<Rightarrow>
               (case run rest g1 of
                  None \<Rightarrow> None
                | Some (g2, calls2) \<Rightarrow> Some (g2, calls @ calls2)))"

definition main :: "Keys list \<Rightarrow> (Game \<times> Call list) option" where
  "main inputs = run inputs (restart new_Game)"

section \<open>Well-formed managers\<close>

text \<open>
  A pointer of a bucket is \<open>alive\<close> when it points to an entity that is not marked.
  \<open>manager_ok\<close> is the invariant of the two structures of the manager: no address is
  owned twice, no bucket holds a pointer twice, and every pointer of the bucket of a
  class points to an owned entity of that class.
\<close>

definition alive :: "Manager \<Rightarrow> addr \<Rightarrow> bool" where
  "alive m ptr = (case deref m ptr of Some e \<Rightarrow> \<not> destroyed e | None \<Rightarrow> False)"

definition manager_ok :: "Manager \<Rightarrow> bool" where
  "manager_ok m \<longleftrightarrow>
     distinct (map fst (entities m)) \<and>
     (\<forall>T. distinct (getAll m T) \<and>
          (\<forall>ptr \<in> set (getAll m T). \<exists>e. deref m ptr = Some e \<and> typeid e = T))"

text \<open>Setting \<^verbatim>\<open>destroyed = true\<close> through a pointer.\<close>

definition mark_destroyed :: "addr \<Rightarrow> Manager \<Rightarrow> Manager" where
  "mark_destroyed ptr m = modify ptr set_destroyed m"

section \<open>Well-formed games\<close>

text \<open>
  \<open>bricks_alive\<close>: every brick the manager owns still needs a hit. \<open>game_ok\<close> is the
  invariant of the game between two frames: the manager is well-formed, it indexes at
  most one ball, and its bricks are alive. \<open>restart\<close> establishes it and \<open>frame\<close>
  keeps it (lemmas \<open>game_ok_restart\<close> and \<open>frame_ok\<close>). A game that has been restarted
  has a paddle, and no paddle is ever marked: \<open>paddles_kept\<close>; the game \<open>new_Game\<close>
  that has not been restarted is in the state \<open>GameOver\<close>.
\<close>

definition bricks_alive :: "Manager \<Rightarrow> bool" where
  "bricks_alive m \<longleftrightarrow>
     (\<forall>(q, e) \<in> set (entities m). case e of EBrick k \<Rightarrow> 1 \<le> requiredHits k | _ \<Rightarrow> True)"

definition paddles_kept :: "Manager \<Rightarrow> bool" where
  "paddles_kept m \<longleftrightarrow>
     getAll m TPaddle \<noteq> [] \<and>
     (\<forall>(q, e) \<in> set (entities m). case e of EPaddle p \<Rightarrow> \<not> paddle_destroyed p | _ \<Rightarrow> True)"

definition game_ok :: "Game \<Rightarrow> bool" where
  "game_ok g \<longleftrightarrow>
     manager_ok (manager g) \<and> length (getAll (manager g) TBall) \<le> 1 \<and> bricks_alive (manager g)
     \<and> (paddles_kept (manager g) \<or> state g = GameOver)"

text \<open>A brick that takes one call of \<^verbatim>\<open>solveBrickBallCollision\<close> per ball of a list.\<close>

fun hit_sequence :: "Brick \<Rightarrow> Ball list \<Rightarrow> Brick" where
  "hit_sequence k [] = k"
| "hit_sequence k (b # bs) = hit_sequence (fst (solveBrickBallCollision k b)) bs"

fun is_update :: "Call \<Rightarrow> bool" where
  "is_update (CallUpdate e) = True"
| "is_update c = False"

fun is_collision :: "Call \<Rightarrow> bool" where
  "is_collision (CallUpdate e) = False"
| "is_collision c = True"

text \<open>
  During the collision loops of a frame a brick may already have been hit and marked:
  \<open>bricks_marked\<close>. \<open>calls_ok\<close>: every call of \<^verbatim>\<open>solveBrickBallCollision\<close> in a
  trace was made on a brick that still needed a hit.
\<close>

definition bricks_marked :: "Manager \<Rightarrow> bool" where
  "bricks_marked m \<longleftrightarrow>
     (\<forall>q k. deref m q = Some (EBrick k) \<longrightarrow> 1 \<le> requiredHits k \<or> brick_destroyed k)"

definition calls_ok :: "Call list \<Rightarrow> bool" where
  "calls_ok calls \<longleftrightarrow>
     (\<forall>c \<in> set calls. case c of CallBrickBall k b \<Rightarrow> 1 \<le> requiredHits k | _ \<Rightarrow> True)"

text \<open>While \<^verbatim>\<open>restart\<close> fills the grid the manager owns bricks only.\<close>

definition only_bricks :: "Manager \<Rightarrow> bool" where
  "only_bricks m \<longleftrightarrow> (\<forall>(q, e) \<in> set (entities m). typeid e = TBrick)"

text \<open>The brick \<^verbatim>\<open>restart\<close> creates at column \<open>iX\<close> and row \<open>iY\<close> of the grid.\<close>

definition brick_at :: "int \<Rightarrow> int \<Rightarrow> Brick" where
  "brick_at iX iY =
     (new_Brick (brkOffsetX + real_of_int (iX + brkStartCol) * (brick_defWidth + brkSpacing))
                (real_of_int (iY + brkStartRow) * (brick_defHeight + brkSpacing)))
       \<lparr>requiredHits := 1 + ((iX * iY) mod 3)\<rparr>"

section \<open>Concrete inputs\<close>

definition no_keys :: Keys where
  "no_keys = \<lparr>key_Escape = False, key_P = False, key_R = False, key_Left = False, key_Right = False\<rparr>"

text \<open>
  The paddle 45 steps to the left of where \<^verbatim>\<open>restart\<close> puts it
  (\<open>400 - 45 * 8 = 40\<close>), and a ball leaving the field through its lower left corner.
\<close>

definition paddle_near_edge :: Paddle where
  "paddle_near_edge = new_Paddle 40 550"

definition ball_in_corner :: Ball where
  "ball_in_corner = (new_Ball 5 585)\<lparr>ball_velocity := \<lparr>vec_x = - 8, vec_y = 8\<rparr>\<rparr>"

text \<open>
  A paddle moving right, and a ball that comes down on its right end, the centre of the
  ball 45 to the right of the centre of the paddle.
\<close>

definition paddle_moving :: Paddle where
  "paddle_moving = (new_Paddle 400 550)\<lparr>paddle_velocity := \<lparr>vec_x = 8, vec_y = 0\<rparr>\<rparr>"

definition ball_on_end :: Ball where
  "ball_on_end = (new_Ball 445 535)\<lparr>ball_velocity := \<lparr>vec_x = 8, vec_y = 8\<rparr>\<rparr>"

text \<open>A brick and a ball that enters it from the right, moving up and left.\<close>

definition brick_one :: Brick where
  "brick_one = (new_Brick 400 100)\<lparr>requiredHits := 2\<rparr>"

definition ball_beside :: Ball where
  "ball_beside = new_Ball 438 104"

text \<open>A manager that owns a brick at address 0, a ball at 1 and a second brick at 2.\<close>

definition manager_three :: Manager where
  "manager_three =
     snd (create (EBrick (new_Brick 100 100))
       (snd (create (EBall (new_Ball 400 300))
         (snd (create (EBrick (new_Brick 200 100)) empty_Manager)))))"

text \<open>
  A game in progress with one brick, one ball and the paddle: the ball is one step away
  from \<open>ball_beside\<close>, where it enters \<open>brick_one\<close> from the right.
\<close>

definition ball_coming :: Ball where
  "ball_coming = new_Ball 446 112"

definition game_small :: Game where
  "game_small =
     \<lparr>manager =
        snd (create (EPaddle (new_Paddle 400 550))
          (snd (create (EBall ball_coming)
            (snd (create (EBrick brick_one) empty_Manager))))),
      state = InProgress, pausePressedLastFrame = False, remainingLives = 3\<rparr>"

text \<open>A game in progress on its last life, after the ball has been removed.\<close>

definition game_last_life :: Game where
  "game_last_life =
     \<lparr>manager =
        snd (create (EPaddle (new_Paddle 400 550))
          (snd (create (EBrick brick_one) empty_Manager))),
      state = InProgress, pausePressedLastFrame = False, remainingLives = 1\<rparr>"

section \<open>Geometry: the intersection test\<close>

text \<open>
  C9. The intersection test is symmetric: for every two shapes, each a rectangle or a
  circle, \<open>isIntersecting A B\<close> and \<open>isIntersecting B A\<close> agree.
\<close>

theorem isIntersecting_symmetric: "isIntersecting mA mB = isIntersecting mB mA"
  unfolding isIntersecting_def by auto

section \<open>Ball, paddle and the collision responses\<close>

lemmas entity_consts =
  wndWidth_def wndHeight_def ball_defRadius_def ball_defVelocity_def
  paddle_defWidth_def paddle_defHeight_def paddle_defVelocity_def
  brick_defWidth_def brick_defHeight_def

lemma abs_pick: "abs (if abs a < abs b then a else b) = min (abs a) (abs (b :: real))"
  by (simp add: min_def)

lemma overlap_hit [simp]:
  "overlapLeft (k\<lparr>requiredHits := n\<rparr>) b = overlapLeft k b"
  "overlapRight (k\<lparr>requiredHits := n\<rparr>) b = overlapRight k b"
  "overlapTop (k\<lparr>requiredHits := n\<rparr>) b = overlapTop k b"
  "overlapBottom (k\<lparr>requiredHits := n\<rparr>) b = overlapBottom k b"
  "overlapLeft (k\<lparr>brick_destroyed := d\<rparr>) b = overlapLeft k b"
  "overlapRight (k\<lparr>brick_destroyed := d\<rparr>) b = overlapRight k b"
  "overlapTop (k\<lparr>brick_destroyed := d\<rparr>) b = overlapTop k b"
  "overlapBottom (k\<lparr>brick_destroyed := d\<rparr>) b = overlapBottom k b"
  by (simp_all add: overlapLeft_def overlapRight_def overlapTop_def overlapBottom_def)

text \<open>What one call does to an intersecting pair, with the locals folded away.\<close>

lemma solveBrickBall_hit:
  assumes "isIntersecting (Rect (brick_shape k)) (Circ (ball_shape b))"
  shows "solveBrickBallCollision k b =
    (brick_hit k,
     if min (abs (overlapLeft k b)) (abs (overlapRight k b))
          < min (abs (overlapTop k b)) (abs (overlapBottom k b))
     then b\<lparr>ball_velocity := (ball_velocity b)
             \<lparr>vec_x := abs (vec_x (ball_velocity b))
                        * (if abs (overlapLeft k b) < abs (overlapRight k b) then - 1 else 1)\<rparr>\<rparr>
     else b\<lparr>ball_velocity := (ball_velocity b)
             \<lparr>vec_y := abs (vec_y (ball_velocity b))
                        * (if abs (overlapTop k b) < abs (overlapBottom k b) then - 1 else 1)\<rparr>\<rparr>)"
proof -
  have "requiredHits k - 1 \<le> 0 \<or> \<not> requiredHits k - 1 \<le> 0" by blast
  then show ?thesis
    unfolding solveBrickBallCollision_def Let_def abs_pick brick_hit_def
    using assms by (elim disjE) simp_all
qed

lemma solveBrickBall_miss:
  "\<not> isIntersecting (Rect (brick_shape k)) (Circ (ball_shape b)) \<Longrightarrow>
   solveBrickBallCollision k b = (k, b)"
  by (simp add: solveBrickBallCollision_def)

text \<open>
  C5. For an intersecting brick and ball, \<^verbatim>\<open>solveBrickBallCollision\<close> assigns exactly
  one component of the ball's velocity and leaves the other component, the ball's
  position and its destroyed flag as they were. The component is chosen by the magnitudes
  of the minimal overlaps: when the smaller of \<open>|overlapLeft|\<close>, \<open>|overlapRight|\<close> is
  strictly below the smaller of \<open>|overlapTop|\<close>, \<open>|overlapBottom|\<close>, the x component
  becomes \<open>-|x|\<close> if the ball came from the left (\<open>|overlapLeft| < |overlapRight|\<close>) and
  \<open>|x|\<close> otherwise; in every other case, equal magnitudes included, the y component
  becomes \<open>-|y|\<close> if the ball came from the top and \<open>|y|\<close> otherwise.
\<close>

theorem solveBrickBall_flips_one_axis:
  assumes "isIntersecting (Rect (brick_shape k)) (Circ (ball_shape b))"
  shows "(if min (abs (overlapLeft k b)) (abs (overlapRight k b))
              < min (abs (overlapTop k b)) (abs (overlapBottom k b))
          then vec_x (ball_velocity (snd (solveBrickBallCollision k b)))
                 = (if abs (overlapLeft k b) < abs (overlapRight k b)
                    then - abs (vec_x (ball_velocity b)) else abs (vec_x (ball_velocity b)))
               \<and> vec_y (ball_velocity (snd (solveBrickBallCollision k b))) = vec_y (ball_velocity b)
          else vec_y (ball_velocity (snd (solveBrickBallCollision k b)))
                 = (if abs (overlapTop k b) < abs (overlapBottom k b)
                    then - abs (vec_y (ball_velocity b)) else abs (vec_y (ball_velocity b)))
               \<and> vec_x (ball_velocity (snd (solveBrickBallCollision k b))) = vec_x (ball_velocity b))
         \<and> ball_shape (snd (solveBrickBallCollision k b)) = ball_shape b
         \<and> ball_destroyed (snd (solveBrickBallCollision k b)) = ball_destroyed b"
  unfolding solveBrickBall_hit [OF assms] by simp

text \<open>
  At \<open>brick_one\<close> and \<open>ball_beside\<close> the overlaps are 78, 2, 24 and 16: the
  horizontal minimum 2 is below the vertical minimum 16, the ball came from the right,
  and the x component turns from \<open>-8\<close> to \<open>8\<close>.
\<close>

theorem solveBrickBall_flips_one_axis_witness:
  "isIntersecting (Rect (brick_shape brick_one)) (Circ (ball_shape ball_beside))
   \<and> vec_x (ball_velocity (snd (solveBrickBallCollision brick_one ball_beside))) = 8
   \<and> vec_y (ball_velocity (snd (solveBrickBallCollision brick_one ball_beside))) = - 8"
proof -
  have i: "isIntersecting (Rect (brick_shape brick_one)) (Circ (ball_shape ball_beside))"
    by (simp add: isIntersecting_def brick_one_def ball_beside_def new_Brick_def new_Ball_def entity_consts)
  have o: "overlapLeft brick_one ball_beside = 78" "overlapRight brick_one ball_beside = 2"
    "overlapTop brick_one ball_beside = 24" "overlapBottom brick_one ball_beside = 16"
    by (simp_all add: overlapLeft_def overlapRight_def overlapTop_def overlapBottom_def
        brick_one_def ball_beside_def new_Brick_def new_Ball_def entity_consts)
  have v: "ball_velocity ball_beside = \<lparr>vec_x = - 8, vec_y = - 8\<rparr>"
    by (simp add: ball_beside_def new_Ball_def entity_consts)
  show ?thesis
    using solveBrickBall_flips_one_axis [OF i] i unfolding o v by simp
qed

text \<open>
  C4, as the code has it. When the bottom edge of a ball (of the fixed radius) is below
  the field after one update, the update has set \<open>destroyed\<close> and has left the y
  component of the velocity as it was; the x component is as it was unless the ball is
  also beyond the left or the right bound, where the update has negated it.
\<close>

theorem ball_update_bottom_exit:
  assumes "circ_radius (ball_shape b) = ball_defRadius"
    and "wndHeight < bottom (Circ (ball_shape (ball_update b)))"
  shows "ball_destroyed (ball_update b)
    \<and> vec_y (ball_velocity (ball_update b)) = vec_y (ball_velocity b)
    \<and> vec_x (ball_velocity (ball_update b)) =
       (if left (Circ (ball_shape (ball_update b))) < 0
           \<or> wndWidth < right (Circ (ball_shape (ball_update b)))
        then - vec_x (ball_velocity b) else vec_x (ball_velocity b))"
  using assms unfolding ball_update_def solveBoundCollisions_def ball_move_def Let_def
  by (auto simp: wndHeight_def ball_defRadius_def)

theorem ball_update_bottom_exit_witness:
  "circ_radius (ball_shape (new_Ball 400 595)) = ball_defRadius
   \<and> wndHeight < bottom (Circ (ball_shape (ball_update ((new_Ball 400 595)\<lparr>ball_velocity := \<lparr>vec_x = 8, vec_y = 8\<rparr>\<rparr>))))
   \<and> ball_destroyed (ball_update ((new_Ball 400 595)\<lparr>ball_velocity := \<lparr>vec_x = 8, vec_y = 8\<rparr>\<rparr>))
   \<and> ball_velocity (ball_update ((new_Ball 400 595)\<lparr>ball_velocity := \<lparr>vec_x = 8, vec_y = 8\<rparr>\<rparr>))
       = \<lparr>vec_x = 8, vec_y = 8\<rparr>"
proof -
  let ?b = "(new_Ball 400 595)\<lparr>ball_velocity := \<lparr>vec_x = 8, vec_y = 8\<rparr>\<rparr>"
  have r: "circ_radius (ball_shape ?b) = ball_defRadius"
    by (simp add: new_Ball_def)
  have s: "ball_shape (ball_update ?b) = \<lparr>circ_x = 408, circ_y = 603, circ_radius = 10\<rparr>"
    by (simp add: ball_update_def solveBoundCollisions_def ball_move_def Let_def new_Ball_def entity_consts)
  have h: "wndHeight < bottom (Circ (ball_shape (ball_update ?b)))"
    unfolding s by (simp add: wndHeight_def)
  have "vec_x (ball_velocity (ball_update ?b)) = 8 \<and> vec_y (ball_velocity (ball_update ?b)) = 8"
    using ball_update_bottom_exit [OF r h] unfolding s by (simp add: wndWidth_def)
  then have "ball_velocity (ball_update ?b) = \<lparr>vec_x = 8, vec_y = 8\<rparr>"
    by (cases "ball_velocity (ball_update ?b)") simp
  then show ?thesis
    using ball_update_bottom_exit [OF r h] r h by (simp add: new_Ball_def)
qed

text \<open>
  The claim as written fails in the corner: \<open>ball_in_corner\<close> moves to \<open>(-3, 593)\<close>,
  its bottom edge 603 is below the field, and its left edge \<open>-13\<close> is beyond the left
  bound, so the same update turns the x component from \<open>-8\<close> to \<open>8\<close>.
\<close>

theorem ball_update_bottom_exit_counterexample:
  "wndHeight < bottom (Circ (ball_shape (ball_update ball_in_corner)))
   \<and> ball_destroyed (ball_update ball_in_corner)
   \<and> vec_x (ball_velocity ball_in_corner) = - 8
   \<and> vec_x (ball_velocity (ball_update ball_in_corner)) = 8"
  by (simp add: ball_in_corner_def ball_update_def solveBoundCollisions_def ball_move_def
      Let_def new_Ball_def entity_consts)

text \<open>
  C3. A paddle inside the field (\<open>0 \<le> left\<close>, \<open>right \<le> wndWidth\<close>) is meant to
  stay inside under one update with the Left key, and likewise with the Right key; the
  code lets it out one step before the edge. \<^verbatim>\<open>processPlayerInput\<close> tests the
  position before the step (\<open>left > 0\<close>), not the position the step leads to: the
  left edge of \<open>paddle_near_edge\<close> is at \<open>2.5\<close>, inside the field, and one update
  with the Left key down puts it at \<open>-5.5\<close>.
\<close>

theorem paddle_driven_outside:
  "0 \<le> left (Rect (paddle_shape paddle_near_edge))
   \<and> right (Rect (paddle_shape paddle_near_edge)) \<le> wndWidth
   \<and> key_Left (no_keys\<lparr>key_Left := True\<rparr>)
   \<and> left (Rect (paddle_shape paddle_near_edge)) = 5 / 2
   \<and> left (Rect (paddle_shape (paddle_update (no_keys\<lparr>key_Left := True\<rparr>) paddle_near_edge))) = - 11 / 2"
  by (simp add: paddle_near_edge_def new_Paddle_def entity_consts no_keys_def
      paddle_update_def processPlayerInput_def paddle_move_def Let_def)

text \<open>
  What the guard does keep, for every paddle and whatever keys are down: a paddle whose
  left edge is at or beyond the left bound is not moved left, and one whose right edge
  is at or beyond the right bound is not moved right; so a paddle less than one step
  outside a bound stays less than one step outside it.
\<close>

lemma paddle_update_overshoot:
  "(left (Rect (paddle_shape p)) \<le> 0 \<longrightarrow>
      rect_x (paddle_shape p) \<le> rect_x (paddle_shape (paddle_update keys p)))
   \<and> (wndWidth \<le> right (Rect (paddle_shape p)) \<longrightarrow>
      rect_x (paddle_shape (paddle_update keys p)) \<le> rect_x (paddle_shape p))
   \<and> (- paddle_defVelocity < left (Rect (paddle_shape p)) \<longrightarrow>
      - paddle_defVelocity < left (Rect (paddle_shape (paddle_update keys p))))
   \<and> (right (Rect (paddle_shape p)) < wndWidth + paddle_defVelocity \<longrightarrow>
      right (Rect (paddle_shape (paddle_update keys p))) < wndWidth + paddle_defVelocity)"
  unfolding paddle_update_def processPlayerInput_def paddle_move_def Let_def
  by (auto simp: wndWidth_def paddle_defVelocity_def)

text \<open>
  \<^verbatim>\<open>collisionVec\<close> has the second component \<open>-2\<close>: it is never the zero vector,
  and \<^verbatim>\<open>getNormalized\<close> divides by a length of at least 2.
\<close>

lemma collisionVec_length_pos: "2 \<le> getLength (collisionVec mPaddle mBall)"
proof -
  have "sqrt ((2::real)\<^sup>2) \<le> sqrt ((posFactor mPaddle mBall + velFactor mPaddle)\<^sup>2 + 2\<^sup>2)"
    by (rule real_sqrt_le_mono) simp
  then show ?thesis
    by (simp add: getLength_def collisionVec_def)
qed

text \<open>
  The bounding box of the ball reaches the paddle while the centre of the ball is up
  to one radius beyond an end of the paddle: for an intersecting pair the magnitude of
  \<open>posFactor\<close> is bounded by \<open>1/2 + radius / width\<close> (19/30 for the game's sizes).
\<close>

theorem posFactor_bound:
  assumes "isIntersecting (Rect (paddle_shape p)) (Circ (ball_shape b))"
    and "0 < rect_width (paddle_shape p)"
  shows "abs (posFactor p b) \<le> 1 / 2 + circ_radius (ball_shape b) / rect_width (paddle_shape p)"
proof -
  let ?w = "rect_width (paddle_shape p)"
  let ?d = "circ_x (ball_shape b) - rect_x (paddle_shape p)"
  have "abs ?d \<le> ?w / 2 + circ_radius (ball_shape b)"
    using assms(1) by (simp add: isIntersecting_def abs_le_iff)
  then have "abs ?d / ?w \<le> (?w / 2 + circ_radius (ball_shape b)) / ?w"
    using assms(2) by (simp add: divide_right_mono)
  also have "\<dots> = 1 / 2 + circ_radius (ball_shape b) / ?w"
    using assms(2) by (simp add: field_simps)
  finally show ?thesis
    using assms(2) by (simp add: posFactor_def)
qed

theorem posFactor_bound_witness:
  "isIntersecting (Rect (paddle_shape paddle_moving)) (Circ (ball_shape ball_on_end))
   \<and> 0 < rect_width (paddle_shape paddle_moving)
   \<and> abs (posFactor paddle_moving ball_on_end) \<le> 19 / 30"
proof -
  have i: "isIntersecting (Rect (paddle_shape paddle_moving)) (Circ (ball_shape ball_on_end))"
    and w: "0 < rect_width (paddle_shape paddle_moving)"
    by (simp_all add: isIntersecting_def paddle_moving_def ball_on_end_def
        new_Paddle_def new_Ball_def entity_consts)
  from posFactor_bound [OF i w] i w show ?thesis
    by (simp add: paddle_moving_def ball_on_end_def new_Paddle_def new_Ball_def entity_consts)
qed

text \<open>
  C7. The horizontal bias \<open>posFactor\<close> of an intersecting paddle and ball is meant to
  lie between \<open>-1/2\<close> and \<open>1/2\<close>; the code leaves that interval. \<open>paddle_moving\<close>
  and \<open>ball_on_end\<close> intersect (the left edge of the ball, 435, is left of the right
  edge of the paddle, 437.5) and \<open>posFactor\<close> is \<open>45 / 75\<close>, above \<open>1/2\<close>.
\<close>

theorem posFactor_above_half:
  "isIntersecting (Rect (paddle_shape paddle_moving)) (Circ (ball_shape ball_on_end))
   \<and> posFactor paddle_moving ball_on_end = 3 / 5"
  by (simp add: isIntersecting_def posFactor_def paddle_moving_def ball_on_end_def
      new_Paddle_def new_Ball_def entity_consts)

text \<open>
  The y component of the velocity after the paddle's response, in closed form:
  with \<open>a = posFactor + velFactor\<close> and \<open>(x, y)\<close> the incoming velocity it is
  \<open>(y * (a\<^sup>2 - 4) + 4 * a * x) / (a\<^sup>2 + 4)\<close>.
\<close>

lemma getReflected_collision_y:
  "vec_y (getReflected v (getNormalized \<lparr>vec_x = a, vec_y = - 2\<rparr>))
   = (vec_y v * (a\<^sup>2 - 4) + 4 * a * vec_x v) / (a\<^sup>2 + 4)"
proof -
  have pos: "0 < a\<^sup>2 + 4"
    by (rule add_nonneg_pos) simp_all
  define r where "r = sqrt (a\<^sup>2 + 4)"
  have r2: "r * r = a\<^sup>2 + 4"
    using pos by (simp add: r_def)
  have r0: "r \<noteq> 0"
    using pos by (simp add: r_def)
  have "vec_y (getReflected v (getNormalized \<lparr>vec_x = a, vec_y = - 2\<rparr>))
        = vec_y v + 2 / r * (2 * (vec_x v * (a / r) - vec_y v * (2 / r)))"
    by (simp add: getReflected_def getNormalized_def getLength_def getDotProduct_def Let_def r_def)
  also have "\<dots> = vec_y v + (4 * a * vec_x v - 8 * vec_y v) / (r * r)"
    using r0 by (simp add: field_simps)
  also have "\<dots> = (vec_y v * (a\<^sup>2 - 4) + 4 * a * vec_x v) / (a\<^sup>2 + 4)"
    unfolding r2 using pos by (simp add: field_simps)
  finally show ?thesis .
qed

text \<open>
  For an intersecting paddle and ball the velocity after
  \<^verbatim>\<open>solvePaddleBallCollision\<close> points upward (its y component is negative) exactly
  when \<open>4 * a * x < y * (4 - a\<^sup>2)\<close>, for the incoming velocity \<open>(x, y)\<close> and
  \<open>a = posFactor + velFactor\<close>.
\<close>

theorem solvePaddleBall_upward_iff:
  assumes "isIntersecting (Rect (paddle_shape p)) (Circ (ball_shape b))"
  shows "vec_y (ball_velocity (solvePaddleBallCollision p b)) < 0 \<longleftrightarrow>
         4 * (posFactor p b + velFactor p) * vec_x (ball_velocity b)
           < vec_y (ball_velocity b) * (4 - (posFactor p b + velFactor p)\<^sup>2)"
proof -
  let ?a = "posFactor p b + velFactor p"
  have pos: "0 < ?a\<^sup>2 + 4"
    by (rule add_nonneg_pos) simp_all
  have "vec_y (ball_velocity (solvePaddleBallCollision p b))
        = (vec_y (ball_velocity b) * (?a\<^sup>2 - 4) + 4 * ?a * vec_x (ball_velocity b)) / (?a\<^sup>2 + 4)"
    using assms
    by (simp add: solvePaddleBallCollision_def Let_def collisionVec_def posFactor_def
        getReflected_collision_y del: top_edge.simps)
  then show ?thesis
    using pos by (simp add: divide_less_0_iff algebra_simps)
qed

text \<open>
  A ball that comes down on the middle of a resting paddle leaves upward; the ball that
  comes down on the right end of the paddle moving right does not.
\<close>

theorem solvePaddleBall_upward_iff_witness:
  "isIntersecting (Rect (paddle_shape (new_Paddle 400 550)))
      (Circ (ball_shape ((new_Ball 400 535)\<lparr>ball_velocity := \<lparr>vec_x = 8, vec_y = 8\<rparr>\<rparr>)))
   \<and> vec_y (ball_velocity (solvePaddleBallCollision (new_Paddle 400 550)
        ((new_Ball 400 535)\<lparr>ball_velocity := \<lparr>vec_x = 8, vec_y = 8\<rparr>\<rparr>))) < 0
   \<and> isIntersecting (Rect (paddle_shape paddle_moving)) (Circ (ball_shape ball_on_end))
   \<and> \<not> vec_y (ball_velocity (solvePaddleBallCollision paddle_moving ball_on_end)) < 0"
proof -
  let ?b = "(new_Ball 400 535)\<lparr>ball_velocity := \<lparr>vec_x = 8, vec_y = 8\<rparr>\<rparr>"
  have i: "isIntersecting (Rect (paddle_shape (new_Paddle 400 550))) (Circ (ball_shape ?b))"
    and j: "isIntersecting (Rect (paddle_shape paddle_moving)) (Circ (ball_shape ball_on_end))"
    by (simp_all add: isIntersecting_def paddle_moving_def ball_on_end_def
        new_Paddle_def new_Ball_def entity_consts)
  have a: "posFactor (new_Paddle 400 550) ?b + velFactor (new_Paddle 400 550) = 0"
    "posFactor paddle_moving ball_on_end + velFactor paddle_moving = 1"
    by (simp_all add: posFactor_def velFactor_def paddle_moving_def ball_on_end_def
        new_Paddle_def new_Ball_def entity_consts)
  have v: "ball_velocity ?b = \<lparr>vec_x = 8, vec_y = 8\<rparr>" "ball_velocity ball_on_end = \<lparr>vec_x = 8, vec_y = 8\<rparr>"
    by (simp_all add: ball_on_end_def new_Ball_def)
  from solvePaddleBall_upward_iff [OF i] solvePaddleBall_upward_iff [OF j] i j
  show ?thesis
    unfolding a v by simp
qed

text \<open>
  C6. After \<^verbatim>\<open>solvePaddleBallCollision\<close> on an intersecting pair the ball is meant
  to move upward (negative y component); the code does not always turn it. At
  \<open>paddle_moving\<close> and \<open>ball_on_end\<close> the ball comes down with velocity \<open>(8, 8)\<close>,
  \<open>posFactor + velFactor\<close> is \<open>0.6 + 0.4\<close>, and the response leaves the velocity
  \<open>(11.2, 1.6)\<close>: the ball still moves down.
\<close>

theorem solvePaddleBall_still_downward:
  "isIntersecting (Rect (paddle_shape paddle_moving)) (Circ (ball_shape ball_on_end))
   \<and> vec_y (ball_velocity ball_on_end) = 8
   \<and> vec_y (ball_velocity (solvePaddleBallCollision paddle_moving ball_on_end)) = 8 / 5"
proof -
  have i: "isIntersecting (Rect (paddle_shape paddle_moving)) (Circ (ball_shape ball_on_end))"
    by (simp add: isIntersecting_def paddle_moving_def ball_on_end_def
        new_Paddle_def new_Ball_def entity_consts)
  have c: "collisionVec paddle_moving (ball_on_end\<lparr>ball_shape := (ball_shape ball_on_end)\<lparr>circ_y := y\<rparr>\<rparr>)
           = \<lparr>vec_x = 1, vec_y = - 2\<rparr>" for y
    by (simp add: collisionVec_def posFactor_def velFactor_def paddle_moving_def ball_on_end_def
        new_Paddle_def new_Ball_def entity_consts)
  have v: "ball_velocity ball_on_end = \<lparr>vec_x = 8, vec_y = 8\<rparr>"
    by (simp add: ball_on_end_def new_Ball_def)
  have "vec_y (ball_velocity (solvePaddleBallCollision paddle_moving ball_on_end))
        = vec_y (getReflected \<lparr>vec_x = 8, vec_y = 8\<rparr> (getNormalized \<lparr>vec_x = 1, vec_y = - 2\<rparr>))"
    using i by (subst solvePaddleBallCollision_def) (simp add: Let_def c v del: top_edge.simps)
  also have "\<dots> = 8 / 5"
    by (simp add: getReflected_collision_y)
  finally show ?thesis
    using i v by simp
qed


section \<open>The manager\<close>

lemma typeid_set_destroyed [simp]: "typeid (set_destroyed e) = typeid e"
  by (cases e) simp_all

lemma destroyed_set_destroyed [simp]: "destroyed (set_destroyed e)"
  by (cases e) simp_all

lemma typeid_update [simp]: "typeid (update keys e) = typeid e"
  by (cases e) simp_all

lemma fresh_addr_above: "(q, e) \<in> set es \<Longrightarrow> q < fresh_addr es"
  by (induction es) (auto simp: fresh_addr_def)

lemma fresh_addr_new: "fresh_addr es \<notin> fst ` set es"
  using fresh_addr_above by fastforce

lemma getAll_modify [simp]: "getAll (modify ptr f m) T = getAll m T"
  by (simp add: getAll_def modify_def)

lemma addrs_modify [simp]: "map fst (entities (modify ptr f m)) = map fst (entities m)"
  by (simp add: modify_def case_prod_unfold comp_def)

lemma map_of_modify:
  "map_of (map (\<lambda>(q, e). if q = ptr then (q, f e) else (q, e)) es) q'
   = (if q' = ptr then map_option f (map_of es q') else map_of es q')"
  by (induction es) auto

lemma deref_modify:
  "deref (modify ptr f m) q = (if q = ptr then map_option f (deref m q) else deref m q)"
  by (simp add: deref_def modify_def map_of_modify)

lemma manager_ok_modify:
  assumes "manager_ok m" and "\<And>e. deref m ptr = Some e \<Longrightarrow> typeid (f e) = typeid e"
  shows "manager_ok (modify ptr f m)"
proof -
  have "\<exists>e. deref (modify ptr f m) q = Some e \<and> typeid e = T" if "q \<in> set (getAll m T)" for q T
  proof -
    from assms(1) that obtain e where e: "deref m q = Some e" "typeid e = T"
      unfolding manager_ok_def by blast
    show ?thesis
    proof (cases "q = ptr")
      case True
      with e assms(2) [of e] show ?thesis by (simp add: deref_modify)
    next
      case False
      with e show ?thesis by (simp add: deref_modify)
    qed
  qed
  with assms(1) show ?thesis
    unfolding manager_ok_def by simp
qed

lemma getAll_create:
  "getAll (snd (create e m)) T
   = (if T = typeid e then getAll m T @ [fresh_addr (entities m)] else getAll m T)"
  by (simp add: create_def getAll_def Let_def)

lemma entities_create:
  "entities (snd (create e m)) = entities m @ [(fresh_addr (entities m), e)]"
  by (simp add: create_def Let_def)

lemma fst_create: "fst (create e m) = fresh_addr (entities m)"
  by (simp add: create_def Let_def)

lemma deref_fresh: "deref m (fresh_addr (entities m)) = None"
  using fresh_addr_new [of "entities m"] by (simp add: deref_def map_of_eq_None_iff)

lemma deref_create:
  "deref (snd (create e m)) q = (if q = fresh_addr (entities m) then Some e else deref m q)"
  using deref_fresh [of m]
  by (auto simp: deref_def entities_create map_add_def split: option.splits)

lemma manager_ok_create:
  assumes "manager_ok m"
  shows "manager_ok (snd (create e m))"
proof -
  have new: "fresh_addr (entities m) \<notin> set (getAll m T)" for T
  proof
    assume "fresh_addr (entities m) \<in> set (getAll m T)"
    then obtain e' where "deref m (fresh_addr (entities m)) = Some e'"
      using assms unfolding manager_ok_def by blast
    then show False by (simp add: deref_fresh)
  qed
  have d: "distinct (map fst (entities (snd (create e m))))"
    using assms fresh_addr_new [of "entities m"]
    by (simp add: entities_create manager_ok_def)
  have b: "distinct (getAll (snd (create e m)) T)" for T
    using assms new by (simp add: getAll_create manager_ok_def)
  have p: "\<exists>e'. deref (snd (create e m)) ptr = Some e' \<and> typeid e' = T"
    if "ptr \<in> set (getAll (snd (create e m)) T)" for ptr T
  proof (cases "ptr = fresh_addr (entities m)")
    case True
    with that new [of T] have "T = typeid e"
      by (auto simp: getAll_create split: if_splits)
    with True show ?thesis by (simp add: deref_create)
  next
    case False
    with that have "ptr \<in> set (getAll m T)"
      by (auto simp: getAll_create split: if_splits)
    with assms False show ?thesis
      unfolding manager_ok_def by (simp add: deref_create)
  qed
  show ?thesis
    unfolding manager_ok_def using d b p by blast
qed

lemma manager_ok_empty: "manager_ok empty_Manager"
  by (simp add: manager_ok_def empty_Manager_def getAll_def)

lemma manager_ok_clear: "manager_ok (clear m)"
  by (simp add: manager_ok_def clear_def getAll_def)

lemma remove_if_destroyed_filter:
  assumes "\<And>ptr. ptr \<in> set ptrs \<Longrightarrow> \<exists>e. deref m ptr = Some e"
  shows "remove_if_destroyed m ptrs = Some (filter (alive m) ptrs)"
  using assms
proof (induction ptrs)
  case Nil
  show ?case by simp
next
  case (Cons ptr ptrs)
  from Cons.prems obtain e where e: "deref m ptr = Some e" by auto
  have "remove_if_destroyed m ptrs = Some (filter (alive m) ptrs)"
    using Cons by simp
  moreover have "alive m ptr = (\<not> destroyed e)"
    using e by (simp add: alive_def)
  ultimately show ?case using e by simp
qed

lemma map_of_filter_alive:
  assumes "distinct (map fst es)"
  shows "map_of (filter (\<lambda>(q, e). \<not> destroyed e) es) ptr
         = (case map_of es ptr of Some e \<Rightarrow> if destroyed e then None else Some e | None \<Rightarrow> None)"
  using assms
proof (induction es)
  case Nil
  show ?case by simp
next
  case (Cons a es)
  obtain q e where a: "a = (q, e)" by (cases a)
  from Cons.prems a have "q \<notin> fst ` set es" by simp
  then have n: "map_of es q = None" by (simp add: map_of_eq_None_iff)
  have n': "map_of (filter (\<lambda>(q, e). \<not> destroyed e) es) q = None"
    using \<open>q \<notin> fst ` set es\<close> by (force simp: map_of_eq_None_iff)
  from Cons a n n' show ?case by (auto split: option.splits)
qed

text \<open>What \<^verbatim>\<open>refresh\<close> returns for a well-formed manager.\<close>

lemma refresh_ok:
  assumes "manager_ok m"
  shows "refresh m =
           Some \<lparr>entities = filter (\<lambda>(q, e). \<not> destroyed e) (entities m),
                 groupedEntities = (\<lambda>T. filter (alive m) (groupedEntities m T))\<rparr>"
proof -
  have r: "remove_if_destroyed m (groupedEntities m T) = Some (filter (alive m) (groupedEntities m T))" for T
    using assms unfolding manager_ok_def getAll_def
    by (intro remove_if_destroyed_filter) blast
  have "(\<lambda>T. case T of TBall \<Rightarrow> filter (alive m) (groupedEntities m TBall)
                | TPaddle \<Rightarrow> filter (alive m) (groupedEntities m TPaddle)
                | TBrick \<Rightarrow> filter (alive m) (groupedEntities m TBrick))
        = (\<lambda>T. filter (alive m) (groupedEntities m T))"
    by (rule ext) (simp split: TypeId.split)
  then show ?thesis
    by (simp add: refresh_def r)
qed

lemma deref_refreshed:
  assumes "manager_ok m" and "refresh m = Some m'"
  shows "deref m' ptr = (case deref m ptr of Some e \<Rightarrow> if destroyed e then None else Some e | None \<Rightarrow> None)"
  using assms refresh_ok [OF assms(1)]
  by (auto simp: deref_def manager_ok_def map_of_filter_alive)

lemma manager_ok_refresh:
  assumes "manager_ok m" and "refresh m = Some m'"
  shows "manager_ok m'"
proof -
  have e: "entities m' = filter (\<lambda>(q, e). \<not> destroyed e) (entities m)"
    and g: "\<And>T. getAll m' T = filter (alive m) (getAll m T)"
    using assms refresh_ok [OF assms(1)] by (auto simp: getAll_def)
  have "distinct (map fst (entities m'))"
    using assms(1) unfolding e manager_ok_def by (simp add: distinct_map_filter)
  moreover have "distinct (getAll m' T)" for T
    using assms(1) unfolding g manager_ok_def by simp
  moreover have "\<exists>e. deref m' ptr = Some e \<and> typeid e = T" if "ptr \<in> set (getAll m' T)" for ptr T
  proof -
    from that have a: "alive m ptr" and p: "ptr \<in> set (getAll m T)"
      unfolding g by simp_all
    from assms(1) p obtain e where "deref m ptr = Some e" "typeid e = T"
      unfolding manager_ok_def by blast
    with a show ?thesis
      by (simp add: deref_refreshed [OF assms] alive_def)
  qed
  ultimately show ?thesis
    unfolding manager_ok_def by blast
qed

text \<open>
  C1. Marking an entity destroyed leaves every \<open>getAll\<close> sequence as it is, so its
  length too, and leaves the manager well-formed. On a well-formed manager
  \<^verbatim>\<open>refresh\<close> returns; afterwards the authoritative collection is the old one
  without the marked entities, in the old order, each bucket is the old bucket without
  the pointers to marked entities, in the old order, and no entity of the collection
  and no entity a bucket points to is marked.
\<close>

theorem refresh_removes_destroyed:
  assumes "manager_ok m"
  shows "getAll (mark_destroyed ptr m) T = getAll m T
    \<and> length (getAll (mark_destroyed ptr m) T) = length (getAll m T)
    \<and> manager_ok (mark_destroyed ptr m)
    \<and> (\<exists>m'. refresh m = Some m'
          \<and> entities m' = filter (\<lambda>(q, e). \<not> destroyed e) (entities m)
          \<and> (\<forall>T. getAll m' T = filter (alive m) (getAll m T))
          \<and> (\<forall>(q, e) \<in> set (entities m'). \<not> destroyed e)
          \<and> (\<forall>T. \<forall>ptr \<in> set (getAll m' T). alive m' ptr)
          \<and> manager_ok m')"
proof -
  obtain m' where r: "refresh m = Some m'"
    using refresh_ok [OF assms] by simp
  have e: "entities m' = filter (\<lambda>(q, e). \<not> destroyed e) (entities m)"
    and g: "\<And>T. getAll m' T = filter (alive m) (getAll m T)"
    using r refresh_ok [OF assms] by (auto simp: getAll_def)
  have ok: "manager_ok m'"
    using assms r by (rule manager_ok_refresh)
  have a: "alive m' ptr" if "ptr \<in> set (getAll m' T)" for ptr T
  proof -
    from ok that obtain x where x: "deref m' ptr = Some x"
      unfolding manager_ok_def by blast
    then have "\<not> destroyed x"
      unfolding deref_refreshed [OF assms r] by (auto split: option.splits if_splits)
    with x show ?thesis by (simp add: alive_def)
  qed
  have "manager_ok (mark_destroyed ptr m)"
    unfolding mark_destroyed_def using assms by (rule manager_ok_modify) simp
  then show ?thesis
    using r e g ok a by (auto simp: mark_destroyed_def)
qed

lemma manager_three_ok: "manager_ok manager_three"
  unfolding manager_three_def by (intro manager_ok_create manager_ok_empty)

lemma manager_three_eval:
  "map fst (entities manager_three) = [0, 1, 2]"
  "getAll manager_three TBall = [1]"
  "getAll manager_three TPaddle = []"
  "getAll manager_three TBrick = [0, 2]"
  "alive (mark_destroyed 0 manager_three) 0 = False"
  "alive (mark_destroyed 0 manager_three) (Suc 0) = True"
  "alive (mark_destroyed 0 manager_three) 2 = True"
  "map (\<lambda>(q, e). destroyed e) (entities (mark_destroyed 0 manager_three)) = [True, False, False]"
  by (simp_all add: manager_three_def create_def fresh_addr_def empty_Manager_def Let_def
      getAll_def alive_def deref_def mark_destroyed_def modify_def new_Brick_def new_Ball_def)

text \<open>
  In \<open>manager_three\<close> the brick at address 0 is marked: the bucket of the bricks still
  has its two pointers, and \<^verbatim>\<open>refresh\<close> then leaves the ball and the second brick,
  in this order.
\<close>

theorem refresh_removes_destroyed_witness:
  "manager_ok manager_three
   \<and> getAll (mark_destroyed 0 manager_three) TBrick = [0, 2]
   \<and> (\<exists>m'. refresh (mark_destroyed 0 manager_three) = Some m'
         \<and> map fst (entities m') = [1, 2]
         \<and> getAll m' TBall = [1] \<and> getAll m' TBrick = [2])"
proof -
  have ok: "manager_ok (mark_destroyed 0 manager_three)"
    using refresh_removes_destroyed [OF manager_three_ok, of 0 TBrick] by simp
  obtain m' where r: "refresh (mark_destroyed 0 manager_three) = Some m'"
    and e: "entities m' = filter (\<lambda>(q, e). \<not> destroyed e) (entities (mark_destroyed 0 manager_three))"
    and g: "\<And>T. getAll m' T = filter (alive (mark_destroyed 0 manager_three)) (getAll (mark_destroyed 0 manager_three) T)"
    using refresh_removes_destroyed [OF ok, of 0 TBrick] by blast
  have k: "map fst (entities m') = [1, 2]"
    unfolding e
    by (simp add: manager_three_def create_def fresh_addr_def empty_Manager_def Let_def
        mark_destroyed_def modify_def new_Brick_def new_Ball_def)
  have "getAll m' TBall = [1]" "getAll m' TBrick = [2]"
    unfolding g by (simp_all add: mark_destroyed_def manager_three_eval [unfolded mark_destroyed_def])
  with r k show ?thesis
    using refresh_removes_destroyed [OF manager_three_ok, of 0 TBrick] manager_three_ok
    by (simp add: manager_three_eval)
qed

section \<open>The game loop\<close>

subsection \<open>One brick under repeated hits\<close>

lemma brick_hit_fields [simp]:
  "requiredHits (brick_hit k) = requiredHits k - 1"
  "brick_shape (brick_hit k) = brick_shape k"
  "brick_destroyed (brick_hit k) \<longleftrightarrow> brick_destroyed k \<or> requiredHits k \<le> 1"
  by (auto simp: brick_hit_def)

lemma solveBrickBall_brick:
  "fst (solveBrickBallCollision k b)
   = (if isIntersecting (Rect (brick_shape k)) (Circ (ball_shape b)) then brick_hit k else k)"
  by (simp add: solveBrickBall_hit solveBrickBall_miss)

lemma solveBrickBall_keeps_ball_flag:
  "ball_destroyed (snd (solveBrickBallCollision k b)) = ball_destroyed b"
  by (cases "isIntersecting (Rect (brick_shape k)) (Circ (ball_shape b))")
     (simp_all add: solveBrickBall_hit solveBrickBall_miss)

lemma solveBrickBall_still_alive:
  assumes "1 \<le> requiredHits k \<or> brick_destroyed k"
  shows "1 \<le> requiredHits (fst (solveBrickBallCollision k b))
         \<or> brick_destroyed (fst (solveBrickBallCollision k b))"
  using assms by (auto simp: solveBrickBall_brick)

lemma hit_sequence_fields:
  assumes "\<And>b. b \<in> set bs \<Longrightarrow> isIntersecting (Rect (brick_shape k)) (Circ (ball_shape b))"
  shows "requiredHits (hit_sequence k bs) = requiredHits k - int (length bs)
       \<and> brick_shape (hit_sequence k bs) = brick_shape k
       \<and> (brick_destroyed (hit_sequence k bs) \<longleftrightarrow>
            brick_destroyed k \<or> (bs \<noteq> [] \<and> requiredHits k \<le> int (length bs)))"
  using assms
proof (induction bs arbitrary: k)
  case Nil
  show ?case by simp
next
  case (Cons b bs)
  have i: "isIntersecting (Rect (brick_shape k)) (Circ (ball_shape b))"
    using Cons.prems by simp
  have s: "fst (solveBrickBallCollision k b) = brick_hit k"
    using i by (simp add: solveBrickBall_brick)
  have "\<And>b'. b' \<in> set bs \<Longrightarrow> isIntersecting (Rect (brick_shape (brick_hit k))) (Circ (ball_shape b'))"
    using Cons.prems by simp
  from Cons.IH [OF this] show ?case
    by (auto simp: s)
qed

subsection \<open>Entity updates\<close>

lemma requiredHits_brick_update [simp]: "requiredHits (brick_update k) = requiredHits k"
  by (simp add: brick_update_def)

lemma brick_destroyed_brick_update [simp]: "brick_destroyed (brick_update k) = brick_destroyed k"
  by (simp add: brick_update_def)

lemma getAll_update_all [simp]: "getAll (fst (update_all keys s)) T = getAll (fst s) T"
  by (simp add: update_all_def getAll_def)

lemma deref_update_all:
  "deref (fst (update_all keys s)) q = map_option (update keys) (deref (fst s) q)"
  by (simp add: update_all_def deref_def map_of_map)

lemma manager_ok_update_all:
  assumes "manager_ok (fst s)"
  shows "manager_ok (fst (update_all keys s))"
proof -
  have "map fst (entities (fst (update_all keys s))) = map fst (entities (fst s))"
    by (simp add: update_all_def case_prod_unfold comp_def)
  moreover have "\<exists>e. deref (fst (update_all keys s)) q = Some e \<and> typeid e = T"
    if "q \<in> set (getAll (fst s) T)" for q T
  proof -
    from assms that obtain e where "deref (fst s) q = Some e" "typeid e = T"
      unfolding manager_ok_def by blast
    then show ?thesis by (simp add: deref_update_all)
  qed
  ultimately show ?thesis
    using assms unfolding manager_ok_def by simp
qed

lemma calls_update_all:
  "snd (update_all keys s) = snd s @ map (\<lambda>(q, e). CallUpdate e) (entities (fst s))"
  by (simp add: update_all_def)

subsection \<open>Loops over a bucket\<close>

lemma forEach_ptrs_invariant:
  assumes "I ptrs s"
    and "\<And>p ps s. I (p # ps) s \<Longrightarrow> \<exists>s'. mFunc p s = Some s' \<and> I ps s'"
  shows "\<exists>s'. forEach_ptrs mFunc ptrs s = Some s' \<and> I [] s'"
  using assms(1)
proof (induction ptrs arbitrary: s)
  case Nil
  then show ?case by simp
next
  case (Cons p ps)
  from assms(2) [OF Cons.prems] obtain s' where "mFunc p s = Some s'" "I ps s'" by blast
  with Cons.IH [of s'] show ?case by simp
qed

lemma deref_typed:
  assumes "manager_ok m" and "ptr \<in> set (getAll m T)"
  obtains e where "deref m ptr = Some e" and "typeid e = T"
  using assms unfolding manager_ok_def by blast

lemma deref_ball:
  assumes "manager_ok m" and "ptr \<in> set (getAll m TBall)"
  obtains b where "deref m ptr = Some (EBall b)"
proof -
  from assms obtain e where e: "deref m ptr = Some e" "typeid e = TBall" by (rule deref_typed)
  then show ?thesis using that by (cases e) simp_all
qed

lemma deref_brick:
  assumes "manager_ok m" and "ptr \<in> set (getAll m TBrick)"
  obtains k where "deref m ptr = Some (EBrick k)"
proof -
  from assms obtain e where e: "deref m ptr = Some e" "typeid e = TBrick" by (rule deref_typed)
  then show ?thesis using that by (cases e) simp_all
qed

lemma deref_paddle:
  assumes "manager_ok m" and "ptr \<in> set (getAll m TPaddle)"
  obtains p where "deref m ptr = Some (EPaddle p)"
proof -
  from assms obtain e where e: "deref m ptr = Some e" "typeid e = TPaddle" by (rule deref_typed)
  then show ?thesis using that by (cases e) simp_all
qed

subsection \<open>The collision loops\<close>

lemma calls_ok_simps [simp]:
  "calls_ok []"
  "calls_ok (c @ c') \<longleftrightarrow> calls_ok c \<and> calls_ok c'"
  "calls_ok [CallBrickBall k b] \<longleftrightarrow> 1 \<le> requiredHits k"
  "calls_ok [CallPaddleBall p b]"
  "calls_ok (map (\<lambda>(q, e). CallUpdate e) es)"
  by (auto simp: calls_ok_def)

lemma brick_ball_step:
  assumes "manager_ok m" and "mBall \<in> set (getAll m TBall)" and "mBrick \<in> set (getAll m TBrick)"
  obtains b k where "deref m mBall = Some (EBall b)" and "deref m mBrick = Some (EBrick k)"
    and "mBrick \<noteq> mBall"
    and "brick_ball mBall mBrick (m, c) =
           Some (modify mBrick (\<lambda>e. EBrick (fst (solveBrickBallCollision k b)))
                   (modify mBall (\<lambda>e. EBall (snd (solveBrickBallCollision k b))) m),
                 c @ [CallBrickBall k b])"
proof -
  from assms(1,2) obtain b where b: "deref m mBall = Some (EBall b)" by (rule deref_ball)
  from assms(1,3) obtain k where k: "deref m mBrick = Some (EBrick k)" by (rule deref_brick)
  from b k have "mBrick \<noteq> mBall" by auto
  moreover have "brick_ball mBall mBrick (m, c) =
           Some (modify mBrick (\<lambda>e. EBrick (fst (solveBrickBallCollision k b)))
                   (modify mBall (\<lambda>e. EBall (snd (solveBrickBallCollision k b))) m),
                 c @ [CallBrickBall k b])"
    by (simp add: brick_ball_def b k case_prod_unfold Let_def)
  ultimately show ?thesis using b k that by blast
qed

lemma paddle_ball_step:
  assumes "manager_ok m" and "mBall \<in> set (getAll m TBall)" and "mPaddle \<in> set (getAll m TPaddle)"
  obtains b p where "deref m mBall = Some (EBall b)" and "deref m mPaddle = Some (EPaddle p)"
    and "paddle_ball mBall mPaddle (m, c) =
           Some (modify mBall (\<lambda>e. EBall (solvePaddleBallCollision p b)) m, c @ [CallPaddleBall p b])"
proof -
  from assms(1,2) obtain b where b: "deref m mBall = Some (EBall b)" by (rule deref_ball)
  from assms(1,3) obtain p where p: "deref m mPaddle = Some (EPaddle p)" by (rule deref_paddle)
  have "paddle_ball mBall mPaddle (m, c) =
           Some (modify mBall (\<lambda>e. EBall (solvePaddleBallCollision p b)) m, c @ [CallPaddleBall p b])"
    by (simp add: paddle_ball_def b p)
  with b p that show ?thesis by blast
qed

lemma brick_loop:
  assumes ok: "manager_ok m" and ball: "mBall \<in> set (getAll m TBall)" and calls: "calls_ok c"
    and fresh: "\<And>q k. deref m q = Some (EBrick k) \<Longrightarrow> 1 \<le> requiredHits k"
  shows "\<exists>m' c'. forEach TBrick (brick_ball mBall) (m, c) = Some (m', c')
           \<and> manager_ok m' \<and> (\<forall>T. getAll m' T = getAll m T) \<and> bricks_marked m'
           \<and> calls_ok c' \<and> (\<exists>x. c' = c @ x)
           \<and> (\<forall>q p. deref m' q = Some (EPaddle p) \<longleftrightarrow> deref m q = Some (EPaddle p))"
proof -
  define I where "I ps s \<longleftrightarrow>
      manager_ok (fst s) \<and> (\<forall>T. getAll (fst s) T = getAll m T)
      \<and> set ps \<subseteq> set (getAll m TBrick) \<and> distinct ps
      \<and> (\<forall>q \<in> set ps. \<forall>k. deref (fst s) q = Some (EBrick k) \<longrightarrow> 1 \<le> requiredHits k)
      \<and> bricks_marked (fst s) \<and> calls_ok (snd s) \<and> (\<exists>x. snd s = c @ x)
      \<and> (\<forall>q p. deref (fst s) q = Some (EPaddle p) \<longleftrightarrow> deref m q = Some (EPaddle p))" for ps and s :: sim
  have start: "I (getAll m TBrick) (m, c)"
    using assms unfolding I_def manager_ok_def bricks_marked_def by auto
  have step: "\<exists>s'. brick_ball mBall p s = Some s' \<and> I ps s'" if "I (p # ps) s" for p ps s
  proof -
    obtain m1 c1 where s: "s = (m1, c1)" by (cases s)
    from that have ok1: "manager_ok m1" and same: "\<And>T. getAll m1 T = getAll m T"
      and sub: "set (p # ps) \<subseteq> set (getAll m TBrick)" and dist: "distinct (p # ps)"
      and todo: "\<And>q k. q \<in> set (p # ps) \<Longrightarrow> deref m1 q = Some (EBrick k) \<Longrightarrow> 1 \<le> requiredHits k"
      and marked: "bricks_marked m1" and c1: "calls_ok c1" and pre: "\<exists>x. c1 = c @ x"
      and pads: "\<And>q p. deref m1 q = Some (EPaddle p) \<longleftrightarrow> deref m q = Some (EPaddle p)"
      unfolding I_def s by auto
    have pb: "mBall \<in> set (getAll m1 TBall)" and pk: "p \<in> set (getAll m1 TBrick)"
      using ball sub by (simp_all add: same)
    from ok1 pb pk obtain b k where b: "deref m1 mBall = Some (EBall b)"
      and k: "deref m1 p = Some (EBrick k)" and ne: "p \<noteq> mBall"
      and r: "brick_ball mBall p (m1, c1) =
           Some (modify p (\<lambda>e. EBrick (fst (solveBrickBallCollision k b)))
                   (modify mBall (\<lambda>e. EBall (snd (solveBrickBallCollision k b))) m1),
                 c1 @ [CallBrickBall k b])"
      by (rule brick_ball_step)
    define m2 where "m2 = modify p (\<lambda>e. EBrick (fst (solveBrickBallCollision k b)))
                   (modify mBall (\<lambda>e. EBall (snd (solveBrickBallCollision k b))) m1)"
    have hits: "1 \<le> requiredHits k"
      using todo [of p k] k by simp
    have d: "deref m2 q = (if q = p then Some (EBrick (fst (solveBrickBallCollision k b)))
                           else if q = mBall then Some (EBall (snd (solveBrickBallCollision k b)))
                           else deref m1 q)" for q
      using b k ne by (simp add: m2_def deref_modify)
    have ok2: "manager_ok m2"
      unfolding m2_def
      by (intro manager_ok_modify ok1) (use b k ne in \<open>auto simp: deref_modify\<close>)
    have "bricks_marked m2"
      unfolding bricks_marked_def
    proof (intro allI impI)
      fix q k2 assume q: "deref m2 q = Some (EBrick k2)"
      show "1 \<le> requiredHits k2 \<or> brick_destroyed k2"
      proof (cases "q = p")
        case True
        with q have "k2 = fst (solveBrickBallCollision k b)" by (simp add: d)
        with hits show ?thesis using solveBrickBall_still_alive [of k b] by simp
      next
        case False
        with q have "deref m1 q = Some (EBrick k2)" by (simp add: d split: if_splits)
        with marked show ?thesis unfolding bricks_marked_def by blast
      qed
    qed
    moreover have "1 \<le> requiredHits k2" if "q \<in> set ps" "deref m2 q = Some (EBrick k2)" for q k2
    proof -
      from that(1) dist have "q \<noteq> p" by auto
      with that(2) have "deref m1 q = Some (EBrick k2)" by (simp add: d split: if_splits)
      with todo [of q k2] that(1) show ?thesis by simp
    qed
    moreover have "deref m2 q = Some (EPaddle pd) \<longleftrightarrow> deref m q = Some (EPaddle pd)" for q pd
      using pads [of q pd] b k by (auto simp: d)
    ultimately have "I ps (m2, c1 @ [CallBrickBall k b])"
      unfolding I_def using ok2 same sub dist c1 pre hits by (auto simp: m2_def)
    with r show ?thesis by (simp add: s m2_def)
  qed
  have "\<exists>s'. forEach_ptrs (brick_ball mBall) (getAll m TBrick) (m, c) = Some s' \<and> I [] s'"
    by (rule forEach_ptrs_invariant [where I = I, OF start]) (rule step)
  then obtain s' where "forEach_ptrs (brick_ball mBall) (getAll m TBrick) (m, c) = Some s'" "I [] s'"
    by blast
  then show ?thesis
    unfolding I_def forEach_def by (cases s') auto
qed

lemma paddle_loop:
  assumes ok: "manager_ok m" and ball: "mBall \<in> set (getAll m TBall)" and calls: "calls_ok c"
    and marked: "bricks_marked m"
  shows "\<exists>m' c'. forEach TPaddle (paddle_ball mBall) (m, c) = Some (m', c')
           \<and> manager_ok m' \<and> (\<forall>T. getAll m' T = getAll m T) \<and> bricks_marked m'
           \<and> calls_ok c' \<and> (\<exists>x. c' = c @ x)
           \<and> (\<forall>q p. deref m' q = Some (EPaddle p) \<longleftrightarrow> deref m q = Some (EPaddle p))
           \<and> (getAll m TPaddle \<noteq> [] \<longrightarrow> (\<exists>x \<in> set c'. is_collision x))"
proof -
  define I where "I ps s \<longleftrightarrow>
      manager_ok (fst s) \<and> (\<forall>T. getAll (fst s) T = getAll m T)
      \<and> set ps \<subseteq> set (getAll m TPaddle)
      \<and> bricks_marked (fst s) \<and> calls_ok (snd s) \<and> (\<exists>x. snd s = c @ x)
      \<and> (\<forall>q p. deref (fst s) q = Some (EPaddle p) \<longleftrightarrow> deref m q = Some (EPaddle p))
      \<and> (ps = getAll m TPaddle \<or> (\<exists>x \<in> set (snd s). is_collision x))" for ps and s :: sim
  have start: "I (getAll m TPaddle) (m, c)"
    using assms unfolding I_def by auto
  have step: "\<exists>s'. paddle_ball mBall p s = Some s' \<and> I ps s'" if "I (p # ps) s" for p ps s
  proof -
    obtain m1 c1 where s: "s = (m1, c1)" by (cases s)
    from that have ok1: "manager_ok m1" and same: "\<And>T. getAll m1 T = getAll m T"
      and sub: "set (p # ps) \<subseteq> set (getAll m TPaddle)"
      and marked1: "bricks_marked m1" and c1: "calls_ok c1" and pre: "\<exists>x. c1 = c @ x"
      and pads: "\<And>q p. deref m1 q = Some (EPaddle p) \<longleftrightarrow> deref m q = Some (EPaddle p)"
      unfolding I_def s by auto
    have pb: "mBall \<in> set (getAll m1 TBall)" and pp: "p \<in> set (getAll m1 TPaddle)"
      using ball sub by (simp_all add: same)
    from ok1 pb pp obtain b pd where b: "deref m1 mBall = Some (EBall b)"
      and r: "paddle_ball mBall p (m1, c1) =
           Some (modify mBall (\<lambda>e. EBall (solvePaddleBallCollision pd b)) m1, c1 @ [CallPaddleBall pd b])"
      by (rule paddle_ball_step)
    define m2 where "m2 = modify mBall (\<lambda>e. EBall (solvePaddleBallCollision pd b)) m1"
    have ok2: "manager_ok m2"
      unfolding m2_def by (intro manager_ok_modify ok1) (use b in auto)
    have "bricks_marked m2"
      using marked1 b unfolding bricks_marked_def m2_def
      by (auto simp: deref_modify split: if_splits)
    moreover have "deref m2 q = Some (EPaddle pd') \<longleftrightarrow> deref m q = Some (EPaddle pd')" for q pd'
      using pads [of q pd'] b by (auto simp: m2_def deref_modify)
    ultimately have "I ps (m2, c1 @ [CallPaddleBall pd b])"
      unfolding I_def using ok2 same sub c1 pre by (auto simp: m2_def)
    with r show ?thesis by (simp add: s m2_def)
  qed
  have "\<exists>s'. forEach_ptrs (paddle_ball mBall) (getAll m TPaddle) (m, c) = Some s' \<and> I [] s'"
    by (rule forEach_ptrs_invariant [where I = I, OF start]) (rule step)
  then obtain s' where "forEach_ptrs (paddle_ball mBall) (getAll m TPaddle) (m, c) = Some s'" "I [] s'"
    by blast
  then show ?thesis
    unfolding I_def forEach_def by (cases s') auto
qed

lemma solve_collisions_ok:
  assumes ok: "manager_ok m" and one: "length (getAll m TBall) \<le> 1" and calls: "calls_ok c"
    and fresh: "\<And>q k. deref m q = Some (EBrick k) \<Longrightarrow> 1 \<le> requiredHits k"
  shows "\<exists>m' c'. solve_collisions (m, c) = Some (m', c')
           \<and> manager_ok m' \<and> (\<forall>T. getAll m' T = getAll m T) \<and> bricks_marked m'
           \<and> calls_ok c' \<and> (\<exists>x. c' = c @ x)
           \<and> (\<forall>q p. deref m' q = Some (EPaddle p) \<longleftrightarrow> deref m q = Some (EPaddle p))
           \<and> (getAll m TBall \<noteq> [] \<and> getAll m TPaddle \<noteq> [] \<longrightarrow> (\<exists>x \<in> set c'. is_collision x))"
proof (cases "getAll m TBall")
  case Nil
  have "bricks_marked m"
    using fresh unfolding bricks_marked_def by blast
  with Nil ok calls show ?thesis
    by (simp add: solve_collisions_def forEach_def)
next
  case (Cons mBall rest)
  with one have balls: "getAll m TBall = [mBall]" by simp
  then have ball: "mBall \<in> set (getAll m TBall)" by simp
  have "\<exists>m' c'. forEach TBrick (brick_ball mBall) (m, c) = Some (m', c')
           \<and> manager_ok m' \<and> (\<forall>T. getAll m' T = getAll m T) \<and> bricks_marked m'
           \<and> calls_ok c' \<and> (\<exists>x. c' = c @ x)
           \<and> (\<forall>q p. deref m' q = Some (EPaddle p) \<longleftrightarrow> deref m q = Some (EPaddle p))"
    by (rule brick_loop [OF ok ball calls]) (rule fresh)
  then obtain m1 c1 where l1: "forEach TBrick (brick_ball mBall) (m, c) = Some (m1, c1)"
    and ok1: "manager_ok m1" and same1: "\<And>T. getAll m1 T = getAll m T"
    and marked1: "bricks_marked m1" and calls1: "calls_ok c1" and pre1: "\<exists>x. c1 = c @ x"
    and pads1: "\<And>q p. deref m1 q = Some (EPaddle p) \<longleftrightarrow> deref m q = Some (EPaddle p)"
    by blast
  have ball1: "mBall \<in> set (getAll m1 TBall)"
    using ball by (simp add: same1)
  from paddle_loop [OF ok1 ball1 calls1 marked1]
  obtain m2 c2 where l2: "forEach TPaddle (paddle_ball mBall) (m1, c1) = Some (m2, c2)"
    and ok2: "manager_ok m2" and same2: "\<And>T. getAll m2 T = getAll m1 T"
    and marked2: "bricks_marked m2" and calls2: "calls_ok c2" and pre2: "\<exists>x. c2 = c1 @ x"
    and pads2: "\<And>q p. deref m2 q = Some (EPaddle p) \<longleftrightarrow> deref m1 q = Some (EPaddle p)"
    and coll2: "getAll m1 TPaddle \<noteq> [] \<longrightarrow> (\<exists>x \<in> set c2. is_collision x)"
    by blast
  have "solve_collisions (m, c) = Some (m2, c2)"
    by (simp add: solve_collisions_def forEach_def [of TBall] balls l1 l2)
  moreover from pre1 pre2 have "\<exists>x. c2 = c @ x" by auto
  ultimately show ?thesis
    using ok2 same1 same2 marked2 calls2 pads1 pads2 coll2 by simp
qed

subsection \<open>The simulation of a frame\<close>

lemma deref_iff:
  assumes "manager_ok m"
  shows "deref m q = Some e \<longleftrightarrow> (q, e) \<in> set (entities m)"
  using assms by (simp add: manager_ok_def deref_def)

lemma bricks_alive_deref:
  assumes "manager_ok m"
  shows "bricks_alive m \<longleftrightarrow> (\<forall>q k. deref m q = Some (EBrick k) \<longrightarrow> 1 \<le> requiredHits k)"
  unfolding bricks_alive_def deref_iff [OF assms]
  by (auto split: Entity.splits)

lemma paddles_kept_deref:
  assumes "manager_ok m"
  shows "paddles_kept m \<longleftrightarrow>
         getAll m TPaddle \<noteq> [] \<and> (\<forall>q p. deref m q = Some (EPaddle p) \<longrightarrow> \<not> paddle_destroyed p)"
  unfolding paddles_kept_def deref_iff [OF assms]
  by (auto split: Entity.splits)

lemma paddle_destroyed_update [simp]: "paddle_destroyed (paddle_update keys p) = paddle_destroyed p"
  by (simp add: paddle_update_def paddle_move_def processPlayerInput_def Let_def)

lemma update_brick:
  "update keys e = EBrick k \<longleftrightarrow> (\<exists>k0. e = EBrick k0 \<and> k = brick_update k0)"
  by (cases e) auto

lemma update_paddle:
  "update keys e = EPaddle p \<longleftrightarrow> (\<exists>p0. e = EPaddle p0 \<and> p = paddle_update keys p0)"
  by (cases e) auto

text \<open>The simulation of a frame from a manager that indexes exactly one ball.\<close>

lemma simulate_manager:
  assumes ok: "manager_ok m" and one: "length (getAll m TBall) = 1"
    and alive: "bricks_alive m" and pads: "paddles_kept m"
  shows "\<exists>m4 calls m5. solve_collisions (update_all keys (m, [])) = Some (m4, calls)
           \<and> refresh m4 = Some m5
           \<and> manager_ok m5 \<and> length (getAll m5 TBall) \<le> 1 \<and> bricks_alive m5 \<and> paddles_kept m5
           \<and> calls_ok calls \<and> (\<exists>c \<in> set calls. is_update c) \<and> (\<exists>c \<in> set calls. is_collision c)"
proof -
  obtain m1 c1 where u: "update_all keys (m, []) = (m1, c1)"
    by (cases "update_all keys (m, [])")
  have m1: "m1 = fst (update_all keys (m, []))" and c1: "c1 = map (\<lambda>(q, e). CallUpdate e) (entities m)"
    using u calls_update_all [of keys "(m, [])"] by simp_all
  have ok1: "manager_ok m1"
    unfolding m1 using ok by (intro manager_ok_update_all) simp
  have same1: "getAll m1 T = getAll m T" for T
    unfolding m1 by simp
  have d1: "deref m1 q = map_option (update keys) (deref m q)" for q
    unfolding m1 by (simp add: deref_update_all)
  from one obtain mBall where balls: "getAll m TBall = [mBall]"
    by (cases "getAll m TBall") simp_all
  from ok obtain b where "deref m mBall = Some (EBall b)"
    by (rule deref_ball) (simp add: balls)
  then have "(mBall, EBall b) \<in> set (entities m)"
    by (simp add: deref_iff [OF ok])
  then have upd: "\<exists>c \<in> set c1. is_update c"
    unfolding c1 by force
  have fresh1: "1 \<le> requiredHits k" if "deref m1 q = Some (EBrick k)" for q k
    using that alive unfolding bricks_alive_deref [OF ok] d1
    by (auto simp: update_brick)
  have "\<exists>m' c'. solve_collisions (m1, c1) = Some (m', c')
           \<and> manager_ok m' \<and> (\<forall>T. getAll m' T = getAll m1 T) \<and> bricks_marked m'
           \<and> calls_ok c' \<and> (\<exists>x. c' = c1 @ x)
           \<and> (\<forall>q p. deref m' q = Some (EPaddle p) \<longleftrightarrow> deref m1 q = Some (EPaddle p))
           \<and> (getAll m1 TBall \<noteq> [] \<and> getAll m1 TPaddle \<noteq> [] \<longrightarrow> (\<exists>x \<in> set c'. is_collision x))"
    by (rule solve_collisions_ok [OF ok1]) (simp_all add: same1 one c1 fresh1)
  then obtain m4 calls where s: "solve_collisions (m1, c1) = Some (m4, calls)"
    and ok4: "manager_ok m4" and same4: "\<And>T. getAll m4 T = getAll m1 T"
    and marked4: "bricks_marked m4" and calls: "calls_ok calls" and pre: "\<exists>x. calls = c1 @ x"
    and pads4: "\<And>q p. deref m4 q = Some (EPaddle p) \<longleftrightarrow> deref m1 q = Some (EPaddle p)"
    and coll: "getAll m1 TBall \<noteq> [] \<and> getAll m1 TPaddle \<noteq> [] \<longrightarrow> (\<exists>x \<in> set calls. is_collision x)"
    by blast
  obtain m5 where r: "refresh m4 = Some m5"
    using refresh_ok [OF ok4] by simp
  have ok5: "manager_ok m5"
    using ok4 r by (rule manager_ok_refresh)
  have e5: "entities m5 = filter (\<lambda>(q, e). \<not> destroyed e) (entities m4)"
    and g5: "\<And>T. getAll m5 T = filter (alive m4) (getAll m4 T)"
    using r refresh_ok [OF ok4] by (auto simp: getAll_def)
  have "length (getAll m5 TBall) \<le> length (getAll m4 TBall)"
    unfolding g5 by simp
  then have one5: "length (getAll m5 TBall) \<le> 1"
    by (simp add: same4 same1 one)
  have alive5: "bricks_alive m5"
    unfolding bricks_alive_def
  proof (intro ballI, clarify)
    fix q e assume "(q, e) \<in> set (entities m5)"
    then have in4: "(q, e) \<in> set (entities m4)" and nd: "\<not> destroyed e"
      unfolding e5 by auto
    show "case e of EBrick k \<Rightarrow> 1 \<le> requiredHits k | _ \<Rightarrow> True"
    proof (cases e)
      case (EBrick k)
      with in4 have "deref m4 q = Some (EBrick k)"
        by (simp add: deref_iff [OF ok4])
      with marked4 have "1 \<le> requiredHits k \<or> brick_destroyed k"
        unfolding bricks_marked_def by blast
      with nd EBrick show ?thesis by simp
    qed simp_all
  qed
  have p4: "\<not> paddle_destroyed p" if "deref m4 q = Some (EPaddle p)" for q p
  proof -
    from that have "deref m1 q = Some (EPaddle p)" by (simp add: pads4)
    then obtain p0 where "deref m q = Some (EPaddle p0)" "p = paddle_update keys p0"
      unfolding d1 by (auto simp: update_paddle)
    with pads show ?thesis
      unfolding paddles_kept_deref [OF ok] by auto
  qed
  have "filter (alive m4) (getAll m4 TPaddle) = getAll m4 TPaddle"
  proof (rule filter_True, rule ballI)
    fix q assume q: "q \<in> set (getAll m4 TPaddle)"
    from ok4 q obtain p where "deref m4 q = Some (EPaddle p)" by (rule deref_paddle)
    with p4 [of q p] show "alive m4 q" by (simp add: alive_def)
  qed
  then have b5: "getAll m5 TPaddle \<noteq> []"
    using pads unfolding g5 paddles_kept_def by (simp add: same4 same1)
  have "\<not> paddle_destroyed p" if "deref m5 q = Some (EPaddle p)" for q p
  proof -
    from that have "deref m4 q = Some (EPaddle p)"
      unfolding deref_refreshed [OF ok4 r] by (auto split: option.splits if_splits)
    then show ?thesis by (rule p4)
  qed
  with b5 have pads5: "paddles_kept m5"
    unfolding paddles_kept_deref [OF ok5] by blast
  from pre upd have upd': "\<exists>c \<in> set calls. is_update c" by auto
  from coll pads have coll': "\<exists>c \<in> set calls. is_collision c"
    unfolding paddles_kept_def by (simp add: same1 balls)
  show ?thesis
    unfolding u using s r ok5 one5 alive5 pads5 calls upd' coll' by simp
qed

lemma bricks_alive_create:
  assumes "bricks_alive m" and "case e of EBrick k \<Rightarrow> 1 \<le> requiredHits k | _ \<Rightarrow> True"
  shows "bricks_alive (snd (create e m))"
  using assms by (auto simp: bricks_alive_def entities_create)

lemma paddles_kept_create_ball:
  assumes "paddles_kept m"
  shows "paddles_kept (snd (create (EBall b) m))"
  using assms by (auto simp: paddles_kept_def entities_create getAll_create)

lemma simulate_ok:
  assumes "game_ok g" and "state g = InProgress"
  shows "\<exists>g' calls. simulate keys g = Some (g', calls) \<and> game_ok g'
           \<and> calls_ok calls \<and> (\<exists>c \<in> set calls. is_update c) \<and> (\<exists>c \<in> set calls. is_collision c)"
proof -
  define g1 where "g1 = (if getAll (manager g) TBall = []
                then g\<lparr>manager := snd (create (EBall (new_Ball (wndWidth / 2) (wndHeight / 2))) (manager g)),
                       remainingLives := remainingLives g - 1\<rparr>
                else g)"
  define g2 where "g2 = (if getAll (manager g1) TBrick = [] then g1\<lparr>state := Victory\<rparr> else g1)"
  define g3 where "g3 = (if remainingLives g2 \<le> 0 then g2\<lparr>state := GameOver\<rparr> else g2)"
  from assms have ok: "manager_ok (manager g)" and one: "length (getAll (manager g) TBall) \<le> 1"
    and alive: "bricks_alive (manager g)" and pads: "paddles_kept (manager g)"
    unfolding game_ok_def by auto
  have m3: "manager g3 = manager g1"
    by (simp add: g3_def g2_def)
  have ok1: "manager_ok (manager g1)"
    unfolding g1_def using ok by (simp add: manager_ok_create)
  have one1: "length (getAll (manager g1) TBall) = 1"
  proof (cases "getAll (manager g) TBall")
    case Nil
    then show ?thesis by (simp add: g1_def getAll_create)
  next
    case (Cons a rest)
    with one show ?thesis by (simp add: g1_def)
  qed
  have alive1: "bricks_alive (manager g1)"
    unfolding g1_def using alive by (simp add: bricks_alive_create)
  have pads1: "paddles_kept (manager g1)"
    unfolding g1_def using pads by (simp add: paddles_kept_create_ball)
  from simulate_manager [OF ok1 one1 alive1 pads1, of keys]
  obtain m4 calls m5 where s: "solve_collisions (update_all keys (manager g1, [])) = Some (m4, calls)"
    and r: "refresh m4 = Some m5"
    and res: "manager_ok m5" "length (getAll m5 TBall) \<le> 1" "bricks_alive m5" "paddles_kept m5"
      "calls_ok calls" "\<exists>c \<in> set calls. is_update c" "\<exists>c \<in> set calls. is_collision c"
    by blast
  have "simulate keys g = Some (g3\<lparr>manager := m5\<rparr>, calls)"
    unfolding simulate_def Let_def g1_def [symmetric] g2_def [symmetric] g3_def [symmetric]
    by (simp add: m3 s r)
  moreover have "game_ok (g3\<lparr>manager := m5\<rparr>)"
    using res by (simp add: game_ok_def)
  ultimately show ?thesis
    using res by blast
qed

subsection \<open>Restart\<close>

lemma bricks_alive_modify:
  assumes "bricks_alive m"
    and "\<And>k. case f (EBrick k) of EBrick k' \<Rightarrow> 1 \<le> requiredHits k' | _ \<Rightarrow> True"
    and "\<And>e. typeid e \<noteq> TBrick \<Longrightarrow> f e = e"
  shows "bricks_alive (modify ptr f m)"
proof -
  have "case e' of EBrick k \<Rightarrow> 1 \<le> requiredHits k | _ \<Rightarrow> True"
    if "(q', e') \<in> set (entities (modify ptr f m))" for q' e'
  proof -
    from that obtain q e where in_m: "(q, e) \<in> set (entities m)"
      and e': "e' = (if q = ptr then f e else e)"
      by (auto simp: modify_def split: if_splits)
    from assms(1) in_m have a: "case e of EBrick k \<Rightarrow> 1 \<le> requiredHits k | _ \<Rightarrow> True"
      unfolding bricks_alive_def by auto
    show ?thesis
    proof (cases e)
      case (EBrick k)
      with a assms(2) [of k] e' show ?thesis by (simp split: if_splits)
    next
      case (EBall b)
      with assms(3) [of e] e' show ?thesis by simp
    next
      case (EPaddle p)
      with assms(3) [of e] e' show ?thesis by simp
    qed
  qed
  then show ?thesis
    unfolding bricks_alive_def by blast
qed

lemma only_bricks_modify:
  assumes "only_bricks m" and "\<And>e. typeid (f e) = typeid e"
  shows "only_bricks (modify ptr f m)"
  using assms unfolding only_bricks_def modify_def by (auto split: if_splits)

lemma create_brick_ok:
  assumes "manager_ok m" and "getAll m TBall = []" and "getAll m TPaddle = []" and "bricks_alive m"
    and "only_bricks m"
  shows "manager_ok (create_brick iX iY m) \<and> getAll (create_brick iX iY m) TBall = []
       \<and> getAll (create_brick iX iY m) TPaddle = [] \<and> bricks_alive (create_brick iX iY m)
       \<and> only_bricks (create_brick iX iY m)"
proof -
  let ?e = "EBrick (new_Brick
              (brkOffsetX + real_of_int (iX + brkStartCol) * (brick_defWidth + brkSpacing))
              (real_of_int (iY + brkStartRow) * (brick_defHeight + brkSpacing)))"
  let ?f = "\<lambda>e. case e of EBrick k \<Rightarrow> EBrick (k\<lparr>requiredHits := 1 + ((iX * iY) mod 3)\<rparr>) | _ \<Rightarrow> e"
  have c: "create_brick iX iY m = modify (fst (create ?e m)) ?f (snd (create ?e m))"
    by (simp add: create_brick_def Let_def case_prod_unfold)
  have ok: "manager_ok (snd (create ?e m))"
    using assms(1) by (rule manager_ok_create)
  have "manager_ok (modify (fst (create ?e m)) ?f (snd (create ?e m)))"
    using ok by (rule manager_ok_modify) (simp split: Entity.splits)
  moreover have "bricks_alive (modify (fst (create ?e m)) ?f (snd (create ?e m)))"
  proof (rule bricks_alive_modify)
    show "bricks_alive (snd (create ?e m))"
      using assms(4) by (rule bricks_alive_create) (simp add: new_Brick_def)
    show "case ?f (EBrick k) of EBrick k' \<Rightarrow> 1 \<le> requiredHits k' | _ \<Rightarrow> True" for k
      by simp
    show "?f e = e" if "typeid e \<noteq> TBrick" for e
      using that by (cases e) simp_all
  qed
  moreover have "only_bricks (modify (fst (create ?e m)) ?f (snd (create ?e m)))"
  proof (rule only_bricks_modify)
    show "only_bricks (snd (create ?e m))"
      using assms(5) by (auto simp: only_bricks_def entities_create)
    show "typeid (?f e) = typeid e" for e
      by (cases e) simp_all
  qed
  ultimately show ?thesis
    unfolding c using assms(2,3) by (simp add: getAll_create)
qed

lemma create_column_ok:
  assumes "manager_ok m" and "getAll m TBall = []" and "getAll m TPaddle = []" and "bricks_alive m"
    and "only_bricks m"
  shows "manager_ok (create_column iX iYs m) \<and> getAll (create_column iX iYs m) TBall = []
       \<and> getAll (create_column iX iYs m) TPaddle = [] \<and> bricks_alive (create_column iX iYs m)
       \<and> only_bricks (create_column iX iYs m)"
  using assms
proof (induction iYs arbitrary: m)
  case Nil
  then show ?case by simp
next
  case (Cons iY iYs)
  from create_brick_ok [OF Cons.prems, of iX iY] Cons.IH [of "create_brick iX iY m"]
  show ?case by simp
qed

lemma create_grid_ok:
  assumes "manager_ok m" and "getAll m TBall = []" and "getAll m TPaddle = []" and "bricks_alive m"
    and "only_bricks m"
  shows "manager_ok (create_grid iXs m) \<and> getAll (create_grid iXs m) TBall = []
       \<and> getAll (create_grid iXs m) TPaddle = [] \<and> bricks_alive (create_grid iXs m)
       \<and> only_bricks (create_grid iXs m)"
  using assms
proof (induction iXs arbitrary: m)
  case Nil
  then show ?case by simp
next
  case (Cons iX iXs)
  from create_column_ok [OF Cons.prems, of iX "[0..brkCountY - 1]"]
    Cons.IH [of "create_column iX [0..brkCountY - 1] m"]
  show ?case by simp
qed

lemma state_restart [simp]: "state (restart g) = Paused"
  by (simp add: restart_def Let_def)

lemma game_ok_restart: "game_ok (restart g)"
proof -
  define m1 where "m1 = create_grid [0..brkCountX - 1] (clear (manager g))"
  define m2 where "m2 = snd (create (EBall (new_Ball (wndWidth / 2) (wndHeight / 2))) m1)"
  define m3 where "m3 = snd (create (EPaddle (new_Paddle (wndWidth / 2) (wndHeight - 50))) m2)"
  have m: "manager (restart g) = m3"
    by (simp add: restart_def Let_def m1_def m2_def m3_def)
  have "manager_ok (clear (manager g))"
    by (rule manager_ok_clear)
  moreover have "getAll (clear (manager g)) TBall = []" "getAll (clear (manager g)) TPaddle = []"
    "bricks_alive (clear (manager g))" "only_bricks (clear (manager g))"
    by (simp_all add: clear_def getAll_def bricks_alive_def only_bricks_def)
  ultimately have 1: "manager_ok m1" "getAll m1 TBall = []" "getAll m1 TPaddle = []"
    "bricks_alive m1" "only_bricks m1"
    unfolding m1_def using create_grid_ok [of "clear (manager g)" "[0..brkCountX - 1]"] by simp_all
  have 2: "manager_ok m2" "length (getAll m2 TBall) = 1" "bricks_alive m2"
    unfolding m2_def using 1 by (simp_all add: manager_ok_create getAll_create bricks_alive_create)
  have 3: "manager_ok m3" "length (getAll m3 TBall) = 1" "bricks_alive m3" "getAll m3 TPaddle \<noteq> []"
    unfolding m3_def using 2 by (simp_all add: manager_ok_create getAll_create bricks_alive_create)
  have "case e of EPaddle p \<Rightarrow> \<not> paddle_destroyed p | _ \<Rightarrow> True" if "(q, e) \<in> set (entities m3)" for q e
    using that 1(5) unfolding m3_def m2_def only_bricks_def
    by (auto simp: entities_create new_Paddle_def split: Entity.splits)
  with 3 have "paddles_kept m3"
    unfolding paddles_kept_def by blast
  with 3 show ?thesis
    by (simp add: game_ok_def m)
qed

subsection \<open>Frames and runs\<close>

lemma process_input_split:
  "process_input keys g =
     (if key_R keys then restart (process_input (keys\<lparr>key_R := False\<rparr>) g)
      else process_input (keys\<lparr>key_R := False\<rparr>) g)"
  by (simp add: process_input_def Let_def)

lemma manager_pause [simp]: "manager (process_input (keys\<lparr>key_R := False\<rparr>) g) = manager g"
  by (simp add: process_input_def Let_def)

lemma state_pause:
  "state (process_input (keys\<lparr>key_R := False\<rparr>) g) =
     (if key_P keys \<and> \<not> pausePressedLastFrame g
      then (if state g = Paused then InProgress else if state g = InProgress then Paused else state g)
      else state g)"
  by (simp add: process_input_def Let_def)

lemma game_ok_process_input:
  assumes "game_ok g"
  shows "game_ok (process_input keys g)"
proof (cases "key_R keys")
  case True
  then show ?thesis
    by (subst process_input_split) (simp add: game_ok_restart)
next
  case False
  have "game_ok (process_input (keys\<lparr>key_R := False\<rparr>) g)"
    using assms unfolding game_ok_def by (auto simp: state_pause)
  with False show ?thesis
    by (subst process_input_split) simp
qed

lemma frame_ok:
  assumes "game_ok g"
  shows "\<exists>g' calls. frame keys g = Some (g', calls) \<and> game_ok g' \<and> calls_ok calls
           \<and> ((\<exists>c \<in> set calls. is_update c) \<longleftrightarrow> state (process_input keys g) = InProgress)
           \<and> ((\<exists>c \<in> set calls. is_collision c) \<longleftrightarrow> state (process_input keys g) = InProgress)
           \<and> (state (process_input keys g) \<noteq> InProgress \<longrightarrow> calls = [] \<and> g' = process_input keys g)"
proof (cases "state (process_input keys g) = InProgress")
  case True
  from simulate_ok [OF game_ok_process_input [OF assms] True, of keys] True
  show ?thesis by (auto simp: frame_def Let_def)
next
  case False
  with game_ok_process_input [OF assms, of keys] show ?thesis
    by (simp add: frame_def Let_def)
qed

lemma run_ok:
  assumes "game_ok g"
  shows "\<exists>g' calls. run inputs g = Some (g', calls) \<and> game_ok g' \<and> calls_ok calls"
  using assms
proof (induction inputs arbitrary: g)
  case Nil
  then show ?case by simp
next
  case (Cons keys rest)
  from frame_ok [OF Cons.prems, of keys]
  obtain g1 calls1 where f: "frame keys g = Some (g1, calls1)" "game_ok g1" "calls_ok calls1"
    by blast
  from Cons.IH [OF f(2)]
  obtain g2 calls2 where r: "run rest g1 = Some (g2, calls2)" "game_ok g2" "calls_ok calls2"
    by blast
  from f r Cons.prems show ?case by simp
qed

lemma main_ok: "\<exists>g calls. main inputs = Some (g, calls) \<and> game_ok g \<and> calls_ok calls"
  unfolding main_def by (rule run_ok) (rule game_ok_restart)

lemma game_small_eval:
  "entities (manager game_small)
   = [(0, EBrick brick_one), (1, EBall ball_coming), (2, EPaddle (new_Paddle 400 550))]"
  "getAll (manager game_small) TBall = [1]"
  "getAll (manager game_small) TBrick = [0]"
  "getAll (manager game_small) TPaddle = [2]"
  by (simp_all add: game_small_def create_def Let_def empty_Manager_def fresh_addr_def getAll_def)

lemma game_small_ok: "game_ok game_small"
proof -
  have "manager_ok (manager game_small)"
    by (simp add: game_small_def manager_ok_create manager_ok_empty)
  moreover have "bricks_alive (manager game_small)" "paddles_kept (manager game_small)"
    by (simp_all add: game_small_eval bricks_alive_def paddles_kept_def brick_one_def new_Paddle_def)
  ultimately show ?thesis by (simp add: game_ok_def game_small_eval)
qed

lemmas eval_defs =
  frame_def process_input_def simulate_def update_all_def solve_collisions_def forEach_def
  brick_ball_def paddle_ball_def refresh_def deref_def modify_def getAll_def Let_def
  ball_update_def ball_move_def solveBoundCollisions_def
  paddle_update_def paddle_move_def processPlayerInput_def brick_update_def
  solveBrickBallCollision_def solvePaddleBallCollision_def isIntersecting_def
  overlapLeft_def overlapRight_def overlapTop_def overlapBottom_def
  no_keys_def ball_coming_def ball_beside_def brick_one_def new_Ball_def new_Paddle_def new_Brick_def
  entity_consts

text \<open>
  The calls of one frame of \<open>game_small\<close> with no key down: the three updates, in the
  order of creation, then the ball against the brick and the ball against the paddle.
  The update has moved the ball to \<open>ball_beside\<close>.
\<close>

lemma frame_game_small:
  "map_option snd (frame no_keys game_small)
   = Some [CallUpdate (EBrick brick_one), CallUpdate (EBall ball_coming),
           CallUpdate (EPaddle (new_Paddle 400 550)),
           CallBrickBall (brick_update brick_one) ball_beside,
           CallPaddleBall (new_Paddle 400 550)
             (snd (solveBrickBallCollision (brick_update brick_one) ball_beside))]"
  by (simp add: game_small_def create_def fresh_addr_def empty_Manager_def eval_defs)

lemma brick_one_intersects:
  "isIntersecting (Rect (brick_shape brick_one)) (Circ (ball_shape ball_beside))"
  by (simp add: isIntersecting_def brick_one_def ball_beside_def new_Brick_def new_Ball_def entity_consts)

text \<open>
  C2. (1) A brick that is not marked and needs \<open>N \<ge> 1\<close> hits is marked after a series
  of calls of \<^verbatim>\<open>solveBrickBallCollision\<close> with intersecting balls exactly when the
  series has at least \<open>N\<close> calls: the \<open>N\<close>-th call marks it and no earlier one does.
  (2) A frame from a well-formed game returns and makes every call of
  \<^verbatim>\<open>solveBrickBallCollision\<close> on a brick whose \<open>requiredHits\<close> is at least 1, and so
  does every run of \<^verbatim>\<open>main\<close>, whatever the keys: a brick that reaches 0 is marked
  in that call, met by no second ball in the frame, and removed by \<^verbatim>\<open>refresh\<close>
  before the next frame. (3) The call never changes the ball's destroyed flag.
\<close>

theorem brick_durability:
  "(\<not> brick_destroyed k \<and> 1 \<le> requiredHits k
      \<and> (\<forall>b \<in> set bs. isIntersecting (Rect (brick_shape k)) (Circ (ball_shape b)))
     \<longrightarrow> (brick_destroyed (hit_sequence k bs) \<longleftrightarrow> requiredHits k \<le> int (length bs)))
   \<and> (game_ok g \<longrightarrow> (\<exists>g' calls. frame keys g = Some (g', calls) \<and> game_ok g' \<and> calls_ok calls))
   \<and> (\<exists>g' calls. main inputs = Some (g', calls) \<and> calls_ok calls)
   \<and> ball_destroyed (snd (solveBrickBallCollision k' b')) = ball_destroyed b'"
proof (intro conjI impI)
  assume a: "\<not> brick_destroyed k \<and> 1 \<le> requiredHits k
      \<and> (\<forall>b \<in> set bs. isIntersecting (Rect (brick_shape k)) (Circ (ball_shape b)))"
  then have "brick_destroyed (hit_sequence k bs) \<longleftrightarrow>
            brick_destroyed k \<or> (bs \<noteq> [] \<and> requiredHits k \<le> int (length bs))"
    using hit_sequence_fields [of bs k] by blast
  with a show "brick_destroyed (hit_sequence k bs) \<longleftrightarrow> requiredHits k \<le> int (length bs)"
    by auto
next
  assume "game_ok g"
  from frame_ok [OF this, of keys]
  show "\<exists>g' calls. frame keys g = Some (g', calls) \<and> game_ok g' \<and> calls_ok calls"
    by blast
next
  from main_ok [of inputs]
  show "\<exists>g' calls. main inputs = Some (g', calls) \<and> calls_ok calls"
    by blast
next
  show "ball_destroyed (snd (solveBrickBallCollision k' b')) = ball_destroyed b'"
    by (rule solveBrickBall_keeps_ball_flag)
qed

text \<open>
  \<open>brick_one\<close> needs two hits: one call with \<open>ball_beside\<close> leaves it unmarked,
  two calls mark it. In the frame of \<open>game_small\<close> the call is made on the brick while
  it needs two hits.
\<close>

theorem brick_durability_witness:
  "\<not> brick_destroyed brick_one \<and> requiredHits brick_one = 2
   \<and> \<not> brick_destroyed (hit_sequence brick_one [ball_beside])
   \<and> brick_destroyed (hit_sequence brick_one [ball_beside, ball_beside])
   \<and> game_ok game_small
   \<and> (\<exists>g' calls. frame no_keys game_small = Some (g', calls) \<and> calls_ok calls
         \<and> CallBrickBall (brick_update brick_one) ball_beside \<in> set calls)"
proof -
  have b: "\<not> brick_destroyed brick_one" "requiredHits brick_one = 2"
    by (simp_all add: brick_one_def new_Brick_def)
  have 1: "\<not> brick_destroyed (hit_sequence brick_one [ball_beside])"
    using brick_durability [of brick_one "[ball_beside]" game_small no_keys "[]" brick_one ball_beside]
      b brick_one_intersects by simp
  have 2: "brick_destroyed (hit_sequence brick_one [ball_beside, ball_beside])"
    using brick_durability [of brick_one "[ball_beside, ball_beside]" game_small no_keys "[]" brick_one ball_beside]
      b brick_one_intersects by simp
  obtain g' calls where f: "frame no_keys game_small = Some (g', calls)" and c: "calls_ok calls"
    using brick_durability [of brick_one "[ball_beside]" game_small no_keys "[]" brick_one ball_beside]
      game_small_ok by blast
  from f frame_game_small have "CallBrickBall (brick_update brick_one) ball_beside \<in> set calls"
    by auto
  with f c b 1 2 game_small_ok show ?thesis by blast
qed

text \<open>
  The state a frame tests is \<open>InProgress\<close> exactly when the R key is up and either
  the P key has just gone down on a paused game or it has not and the game was in
  progress.
\<close>

lemma tested_state:
  "state (process_input keys g) = InProgress \<longleftrightarrow>
     \<not> key_R keys \<and>
     (if key_P keys \<and> \<not> pausePressedLastFrame g then state g = Paused else state g = InProgress)"
  by (subst process_input_split) (auto simp: state_pause)

text \<open>
  C8. Let \<open>g\<close> be a game that \<^verbatim>\<open>main\<close> has reached after any series of frames. The
  next frame returns, and it tests the state once, after it has handled the keys P and
  R (\<open>process_input\<close>): it calls \<open>update\<close> on an entity if and only if that state is
  \<open>InProgress\<close>, it calls a collision function if and only if that state is
  \<open>InProgress\<close>, and in every other state it makes no call at all and leaves the game
  as the key handling left it.
\<close>

theorem simulation_only_in_progress:
  assumes "main inputs = Some (g, calls0)"
  shows "\<exists>g' calls. frame keys g = Some (g', calls)
           \<and> ((\<exists>c \<in> set calls. is_update c) \<longleftrightarrow> state (process_input keys g) = InProgress)
           \<and> ((\<exists>c \<in> set calls. is_collision c) \<longleftrightarrow> state (process_input keys g) = InProgress)
           \<and> (state (process_input keys g) \<noteq> InProgress \<longrightarrow> calls = [] \<and> g' = process_input keys g)"
proof -
  from main_ok [of inputs] assms have "game_ok g" by auto
  from frame_ok [OF this, of keys] show ?thesis by blast
qed

text \<open>
  The first frames of the game: \<^verbatim>\<open>main\<close> has restarted the game, which is paused.
  With the P key down the frame tests \<open>InProgress\<close> and makes update and collision
  calls; with no key down it tests \<open>Paused\<close> and makes none.
\<close>

theorem simulation_only_in_progress_witness:
  "main [] = Some (restart new_Game, [])
   \<and> state (process_input (no_keys\<lparr>key_P := True\<rparr>) (restart new_Game)) = InProgress
   \<and> (\<exists>g' calls. frame (no_keys\<lparr>key_P := True\<rparr>) (restart new_Game) = Some (g', calls)
         \<and> (\<exists>c \<in> set calls. is_update c) \<and> (\<exists>c \<in> set calls. is_collision c))
   \<and> state (process_input no_keys (restart new_Game)) = Paused
   \<and> frame no_keys (restart new_Game) = Some (process_input no_keys (restart new_Game), [])"
proof -
  have m: "main [] = Some (restart new_Game, [])"
    by (simp add: main_def)
  have p: "pausePressedLastFrame (restart new_Game) = False"
    by (simp add: restart_def Let_def new_Game_def)
  have s1: "state (process_input (no_keys\<lparr>key_P := True\<rparr>) (restart new_Game)) = InProgress"
    using p by (simp add: process_input_def Let_def no_keys_def)
  have s2: "state (process_input no_keys (restart new_Game)) = Paused"
    by (simp add: process_input_def Let_def no_keys_def)
  from simulation_only_in_progress [OF m, of "no_keys\<lparr>key_P := True\<rparr>"] s1
  have a: "\<exists>g' calls. frame (no_keys\<lparr>key_P := True\<rparr>) (restart new_Game) = Some (g', calls)
         \<and> (\<exists>c \<in> set calls. is_update c) \<and> (\<exists>c \<in> set calls. is_collision c)"
    by auto
  from simulation_only_in_progress [OF m, of no_keys] s2
  have "frame no_keys (restart new_Game) = Some (process_input no_keys (restart new_Game), [])"
    by auto
  with m s1 s2 a show ?thesis by blast
qed

text \<open>
  The test stands before the simulation. The frame in which the loop finds that no life
  is left has passed the test: it sets \<open>GameOver\<close> and still makes its calls.
\<close>

lemma frame_finding_game_over:
  "state (game_small\<lparr>remainingLives := 0\<rparr>) = InProgress
   \<and> map_option (\<lambda>(g', calls). (state g', length calls))
        (frame no_keys (game_small\<lparr>remainingLives := 0\<rparr>)) = Some (GameOver, 5)"
  by (simp add: game_small_def create_def fresh_addr_def empty_Manager_def eval_defs)

text \<open>
  C10. In the states \<open>GameOver\<close> and \<open>Victory\<close> the handling of the P key leaves the
  state as it is, whatever the key and the flag of the last frame; \<^verbatim>\<open>restart\<close>
  sets \<open>Paused\<close>; and a frame that starts in one of the two states makes no call, so
  it does not simulate, and ends in \<open>Paused\<close> if the R key is down and in the state it
  started in otherwise. In any state, if the handling of the P key changes the state,
  it changes \<open>Paused\<close> to \<open>InProgress\<close> or \<open>InProgress\<close> to \<open>Paused\<close>.
\<close>

theorem final_states_left_by_restart_only:
  assumes "state g = GameOver \<or> state g = Victory"
  shows "state (process_input (keys\<lparr>key_R := False\<rparr>) g) = state g
       \<and> state (restart g) = Paused
       \<and> frame keys g = Some (process_input keys g, [])
       \<and> state (process_input keys g) = (if key_R keys then Paused else state g)
       \<and> (state (process_input (keys\<lparr>key_R := False\<rparr>) g0) \<noteq> state g0 \<longrightarrow>
            (state g0 = Paused \<and> state (process_input (keys\<lparr>key_R := False\<rparr>) g0) = InProgress)
            \<or> (state g0 = InProgress \<and> state (process_input (keys\<lparr>key_R := False\<rparr>) g0) = Paused))"
proof -
  have 1: "state (process_input (keys\<lparr>key_R := False\<rparr>) g) = state g"
    using assms by (auto simp: state_pause)
  have 2: "state (process_input keys g) = (if key_R keys then Paused else state g)"
    by (subst process_input_split) (simp add: 1)
  have 3: "frame keys g = Some (process_input keys g, [])"
    using assms 2 by (auto simp: frame_def Let_def)
  show ?thesis
    using 1 2 3 by (auto simp: state_pause [of keys g0])
qed

text \<open>
  \<open>new_Game\<close> is in the state \<open>GameOver\<close>: a frame with the P key down leaves it
  there, a frame with the R key down leaves it in \<open>Paused\<close>.
\<close>

theorem final_states_left_by_restart_only_witness:
  "state new_Game = GameOver
   \<and> frame (no_keys\<lparr>key_P := True\<rparr>) new_Game = Some (process_input (no_keys\<lparr>key_P := True\<rparr>) new_Game, [])
   \<and> state (process_input (no_keys\<lparr>key_P := True\<rparr>) new_Game) = GameOver
   \<and> frame (no_keys\<lparr>key_R := True\<rparr>) new_Game = Some (process_input (no_keys\<lparr>key_R := True\<rparr>) new_Game, [])
   \<and> state (process_input (no_keys\<lparr>key_R := True\<rparr>) new_Game) = Paused"
proof -
  have s: "state new_Game = GameOver \<or> state new_Game = Victory"
    by (simp add: new_Game_def)
  from final_states_left_by_restart_only [OF s, of "no_keys\<lparr>key_P := True\<rparr>"]
    final_states_left_by_restart_only [OF s, of "no_keys\<lparr>key_R := True\<rparr>"]
  show ?thesis
    by (simp add: new_Game_def no_keys_def)
qed

section \<open>Further properties\<close>

subsection \<open>Reflection\<close>

lemma dot_reflected:
  assumes "getLength n = 1"
  shows "getDotProduct (getReflected v n) n = - getDotProduct v n"
proof -
  from assms have "(vec_x n)\<^sup>2 + (vec_y n)\<^sup>2 = 1"
    by (simp add: getLength_def)
  then have u: "vec_x n * vec_x n + vec_y n * vec_y n = 1"
    by (simp add: power2_eq_square)
  define d where "d = getDotProduct v n"
  have "getDotProduct (getReflected v n) n
        = d - 2 * d * (vec_x n * vec_x n + vec_y n * vec_y n)"
    by (simp add: getReflected_def getDotProduct_def Let_def d_def algebra_simps)
  then show ?thesis
    unfolding u by (simp add: d_def)
qed

text \<open>
  Reflecting a vector twice across the same normal of length 1 gives the vector
  back.
\<close>

theorem getReflected_twice:
  assumes "getLength n = 1"
  shows "getReflected (getReflected v n) n = v"
proof -
  have "getReflected (getReflected v n) n
        = \<lparr>vec_x = vec_x (getReflected v n) - vec_x n * (2 * - getDotProduct v n),
           vec_y = vec_y (getReflected v n) - vec_y n * (2 * - getDotProduct v n)\<rparr>"
    by (subst getReflected_def) (simp add: Let_def dot_reflected [OF assms])
  also have "\<dots> = \<lparr>vec_x = vec_x v, vec_y = vec_y v\<rparr>"
    by (simp add: getReflected_def Let_def)
  finally show ?thesis by simp
qed

theorem getReflected_twice_witness:
  "getLength \<lparr>vec_x = 0, vec_y = - 1\<rparr> = 1
   \<and> getReflected \<lparr>vec_x = - 8, vec_y = - 8\<rparr> \<lparr>vec_x = 0, vec_y = - 1\<rparr> = \<lparr>vec_x = - 8, vec_y = 8\<rparr>
   \<and> getReflected \<lparr>vec_x = - 8, vec_y = 8\<rparr> \<lparr>vec_x = 0, vec_y = - 1\<rparr> = \<lparr>vec_x = - 8, vec_y = - 8\<rparr>"
proof -
  have l: "getLength \<lparr>vec_x = 0, vec_y = - 1\<rparr> = 1"
    by (simp add: getLength_def)
  have r: "getReflected \<lparr>vec_x = - 8, vec_y = - 8\<rparr> \<lparr>vec_x = 0, vec_y = - 1\<rparr> = \<lparr>vec_x = - 8, vec_y = 8\<rparr>"
    by (simp add: getReflected_def getDotProduct_def Let_def)
  from getReflected_twice [OF l, of "\<lparr>vec_x = - 8, vec_y = - 8\<rparr>"] l r show ?thesis
    by simp
qed

subsection \<open>The grid of a restarted game\<close>

lemma modify_fresh:
  "entities (modify (fresh_addr (entities m)) f (snd (create e m)))
   = entities m @ [(fresh_addr (entities m), f e)]"
proof -
  have "map (\<lambda>(q, e'). if q = fresh_addr (entities m) then (q, f e') else (q, e')) (entities m)
        = entities m"
  proof (intro map_idI)
    fix x assume x: "x \<in> set (entities m)"
    obtain q e' where "x = (q, e')" by (cases x)
    with x fresh_addr_above [of q e' "entities m"]
    show "(case x of (q, e') \<Rightarrow> if q = fresh_addr (entities m) then (q, f e') else (q, e')) = x"
      by auto
  qed
  then show ?thesis
    by (simp add: modify_def entities_create)
qed

lemma entities_create_brick:
  "entities (create_brick iX iY m)
   = entities m @ [(fresh_addr (entities m), EBrick (brick_at iX iY))]"
  by (simp add: create_brick_def Let_def case_prod_unfold fst_create modify_fresh brick_at_def)

lemma getAll_create_brick:
  "getAll (create_brick iX iY m) T
   = (if T = TBrick then getAll m T @ [fresh_addr (entities m)] else getAll m T)"
  by (simp add: create_brick_def Let_def case_prod_unfold getAll_create)

lemma objects_create_column:
  "map snd (entities (create_column iX iYs m))
     = map snd (entities m) @ map (\<lambda>iY. EBrick (brick_at iX iY)) iYs
   \<and> length (getAll (create_column iX iYs m) TBrick) = length (getAll m TBrick) + length iYs"
  by (induction iYs arbitrary: m) (simp_all add: entities_create_brick getAll_create_brick)

lemma objects_create_grid:
  "map snd (entities (create_grid iXs m))
     = map snd (entities m)
       @ concat (map (\<lambda>iX. map (\<lambda>iY. EBrick (brick_at iX iY)) [0..brkCountY - 1]) iXs)
   \<and> length (getAll (create_grid iXs m) TBrick)
     = length (getAll m TBrick) + length iXs * length [0..brkCountY - 1]"
  by (induction iXs arbitrary: m) (simp_all add: objects_create_column)

text \<open>
  A restarted game is paused with three lives. Its manager owns, in this order, the
  44 bricks of the 11 columns and 4 rows, column by column, then one ball at the centre
  of the field, then the paddle; its bucket of bricks has 44 pointers; and the brick of
  column \<open>iX\<close> and row \<open>iY\<close> needs \<open>1 + (iX * iY) mod 3\<close> hits, one, two or three.
\<close>

theorem restart_grid:
  "state (restart g) = Paused \<and> remainingLives (restart g) = 3
   \<and> map snd (entities (manager (restart g)))
     = concat (map (\<lambda>iX. map (\<lambda>iY. EBrick (brick_at iX iY)) [0, 1, 2, 3]) [0, 1, 2, 3, 4, 5, 6, 7, 8, 9, 10])
       @ [EBall (new_Ball 400 300), EPaddle (new_Paddle 400 550)]
   \<and> length (getAll (manager (restart g)) TBrick) = 44
   \<and> requiredHits (brick_at iX iY) = 1 + (iX * iY) mod 3
   \<and> requiredHits (brick_at iX iY) \<in> {1, 2, 3}"
proof -
  have c: "[0..brkCountY - 1] = [0, 1, 2, 3]" "[0..brkCountX - 1] = [0, 1, 2, 3, 4, 5, 6, 7, 8, 9, 10]"
    by (simp_all add: brkCountY_def brkCountX_def upto_rec1)
  define m1 where "m1 = create_grid [0..brkCountX - 1] (clear (manager g))"
  have e: "map snd (entities m1)
           = concat (map (\<lambda>iX. map (\<lambda>iY. EBrick (brick_at iX iY)) [0, 1, 2, 3]) [0, 1, 2, 3, 4, 5, 6, 7, 8, 9, 10])"
    and n: "length (getAll m1 TBrick) = 44"
    unfolding m1_def using objects_create_grid [of "[0..brkCountX - 1]" "clear (manager g)"]
    by (simp_all add: c clear_def getAll_def)
  have "map snd (entities (manager (restart g)))
        = map snd (entities m1) @ [EBall (new_Ball 400 300), EPaddle (new_Paddle 400 550)]"
    by (simp add: restart_def Let_def m1_def entities_create wndWidth_def wndHeight_def)
  moreover have "length (getAll (manager (restart g)) TBrick) = 44"
    using n by (simp add: restart_def Let_def m1_def getAll_create)
  moreover have "(iX * iY) mod 3 \<in> {0, 1, 2}"
    by (simp add: pos_mod_sign pos_mod_bound) presburger
  then have "requiredHits (brick_at iX iY) \<in> {1, 2, 3}"
    by (auto simp: brick_at_def)
  ultimately show ?thesis
    by (simp add: e restart_def Let_def brick_at_def)
qed

subsection \<open>Ball steps and lives\<close>

text \<open>
  In the field of 800 by 600 a ball of radius 10 at \<open>(400, 300)\<close> with velocity
  \<open>(-8, -8)\<close> is, after one update, at \<open>(392, 292)\<close> with the same velocity, and is
  not marked.
\<close>

theorem ball_update_step:
  "ball_update (new_Ball 400 300) = new_Ball 392 292
   \<and> ball_velocity (new_Ball 392 292) = \<lparr>vec_x = - 8, vec_y = - 8\<rparr>
   \<and> \<not> ball_destroyed (new_Ball 392 292)"
  by (simp add: ball_update_def ball_move_def solveBoundCollisions_def new_Ball_def Let_def
      entity_consts)

lemma simulate_result:
  assumes "simulate keys g = Some (g', calls)"
  shows "remainingLives g'
           = (if getAll (manager g) TBall = [] then remainingLives g - 1 else remainingLives g)
       \<and> state g'
           = (if remainingLives g' \<le> 0 then GameOver
              else if getAll (manager g) TBrick = [] then Victory else state g)
       \<and> pausePressedLastFrame g' = pausePressedLastFrame g"
  using assms
  by (auto simp: simulate_def Let_def getAll_create split: option.splits if_splits)

text \<open>
  A frame that simulates (the state it tests is \<open>InProgress\<close>) takes one life if
  the manager indexes no ball; it ends in \<open>GameOver\<close> if then no life is left, else in
  \<open>Victory\<close> if the manager indexes no brick, else in \<open>InProgress\<close>.
\<close>

theorem frame_lives:
  assumes "state (process_input keys g) = InProgress"
    and "frame keys g = Some (g', calls)"
  shows "remainingLives g'
           = (if getAll (manager (process_input keys g)) TBall = []
              then remainingLives (process_input keys g) - 1
              else remainingLives (process_input keys g))
       \<and> state g'
           = (if remainingLives g' \<le> 0 then GameOver
              else if getAll (manager (process_input keys g)) TBrick = [] then Victory
              else InProgress)"
proof -
  from assms have "simulate keys (process_input keys g) = Some (g', calls)"
    by (simp add: frame_def Let_def)
  from simulate_result [OF this] assms(1) show ?thesis by simp
qed

lemma frame_game_last_life:
  "map_option (\<lambda>(g', calls). (state g', remainingLives g', getAll (manager g') TBall))
     (frame no_keys game_last_life) = Some (GameOver, 0, [2])"
  by (simp add: game_last_life_def create_def fresh_addr_def empty_Manager_def eval_defs)

theorem frame_lives_witness:
  "state (process_input no_keys game_last_life) = InProgress
   \<and> getAll (manager (process_input no_keys game_last_life)) TBall = []
   \<and> remainingLives (process_input no_keys game_last_life) = 1
   \<and> (\<exists>g' calls. frame no_keys game_last_life = Some (g', calls)
         \<and> remainingLives g' = 0 \<and> state g' = GameOver)"
proof -
  have p: "state (process_input no_keys game_last_life) = InProgress"
    "getAll (manager (process_input no_keys game_last_life)) TBall = []"
    "remainingLives (process_input no_keys game_last_life) = 1"
    by (simp_all add: process_input_def Let_def no_keys_def game_last_life_def create_def
        empty_Manager_def getAll_def)
  from frame_game_last_life obtain g' calls where f: "frame no_keys game_last_life = Some (g', calls)"
    by (cases "frame no_keys game_last_life") auto
  from frame_lives [OF p(1) f] p have "remainingLives g' = 0 \<and> state g' = GameOver"
    by simp
  with f p show ?thesis by blast
qed

subsection \<open>Runs\<close>

text \<open>
  Whatever the keys of the coming frames, the run of \<^verbatim>\<open>main\<close> over them
  returns: no frame reads a dangling pointer or casts a pointer to the wrong class;
  and the game it returns is well-formed.
\<close>

theorem main_returns: "\<exists>g calls. main inputs = Some (g, calls) \<and> game_ok g"
  using main_ok [of inputs] by blast

theorem main_returns_witness:
  "\<exists>g calls. main [no_keys\<lparr>key_P := True\<rparr>, no_keys] = Some (g, calls) \<and> game_ok g"
  using main_returns [of "[no_keys\<lparr>key_P := True\<rparr>, no_keys]"] by simp

end
